theory Spec2Isabelle
  imports Main "HOL-Library.Sublist"
begin

section \<open>JavaScript values and string primitives used by the library\<close>

text \<open>
  The library is a JavaScript module running in strict mode (its first statement is the
  directive \<^verbatim>\<open>'use strict'\<close>). Strings are modelled as \<^typ>\<open>string\<close>; the other
  values that user functions return or throw are modelled by \<open>jsval\<close>.
\<close>

datatype jsval =
    JUndefined
  | JNull
  | JBool bool
  | JNum int
  | JStr string
  | JError string string

text \<open>\<open>if (v)\<close>: undefined, null, false, 0 and the empty string are falsy; objects are truthy.\<close>

fun truthy :: "jsval \<Rightarrow> bool" where
  "truthy JUndefined = False"
| "truthy JNull = False"
| "truthy (JBool b) = b"
| "truthy (JNum n) = (n \<noteq> 0)"
| "truthy (JStr s) = (s \<noteq> [])"
| "truthy (JError n m) = True"

text \<open>\<open>typeof v == 'boolean'\<close>\<close>

fun is_boolean :: "jsval \<Rightarrow> bool" where
  "is_boolean (JBool b) = True"
| "is_boolean v = False"

text \<open>\<open>s.indexOf(pat)\<close>: index of the first occurrence, or -1.\<close>

fun js_indexOf :: "string \<Rightarrow> string \<Rightarrow> int" where
  "js_indexOf [] pat = (if pat = [] then 0 else - 1)"
| "js_indexOf (c # cs) pat =
     (if prefix pat (c # cs) then 0
      else (let r = js_indexOf cs pat in if r < 0 then - 1 else r + 1))"

text \<open>\<open>s.lastIndexOf(pat)\<close>: index of the last occurrence, or -1.\<close>

fun js_lastIndexOf :: "string \<Rightarrow> string \<Rightarrow> int" where
  "js_lastIndexOf [] pat = (if pat = [] then 0 else - 1)"
| "js_lastIndexOf (c # cs) pat =
     (let r = js_lastIndexOf cs pat
      in if 0 \<le> r then r + 1 else if prefix pat (c # cs) then 0 else - 1)"

text \<open>
  \<open>s.substr(start, length)\<close>: a negative start counts from the end, the length is
  clamped to what is left of the string.
\<close>

definition js_substr :: "string \<Rightarrow> int \<Rightarrow> int \<Rightarrow> string" where
  "js_substr s start len =
     (let size = int (length s);
          st = (if start < 0 then max (size + start) 0 else min start size);
          n = min (max len 0) (size - st)
      in take (nat n) (drop (nat st) s))"

text \<open>
  \<open>s.split(sep)\<close> for a string separator. With the empty separator the result is the
  list of the characters of \<open>s\<close>; otherwise \<open>s\<close> is scanned from the left and cut at every
  occurrence of \<open>sep\<close>, so that \<open>''''.split(sep) = ['''']\<close>.
\<close>

fun split_scan :: "string \<Rightarrow> string \<Rightarrow> string \<Rightarrow> string list" where
  "split_scan sep acc [] = [rev acc]"
| "split_scan sep acc (c # cs) =
     (if sep \<noteq> [] \<and> prefix sep (c # cs)
      then rev acc # split_scan sep [] (drop (length sep) (c # cs))
      else split_scan sep (c # acc) cs)"

definition js_split :: "string \<Rightarrow> string \<Rightarrow> string list" where
  "js_split s sep = (if sep = [] then map (\<lambda>c. [c]) s else split_scan sep [] s)"

text \<open>
  \<open>xs.join(sep)\<close> on an array of strings; the separator \<open>undefined\<close> (here \<open>None\<close>)
  stands for a comma.
\<close>

fun join_with :: "string \<Rightarrow> string list \<Rightarrow> string" where
  "join_with sep [] = []"
| "join_with sep [x] = x"
| "join_with sep (x # y # ys) = x @ sep @ join_with sep (y # ys)"

definition js_join :: "string list \<Rightarrow> string option \<Rightarrow> string" where
  "js_join xs sep = join_with (case sep of None \<Rightarrow> '','' | Some d \<Rightarrow> d) xs"

section \<open>Key resolver\<close>

datatype loc_type = TYPE_S3 | TYPE_FILE

text \<open>The object built by \<open>resolveKey\<close>; \<open>None\<close> is the field value \<open>null\<close>.\<close>

record location =
  loc_bucket :: "string option"
  loc_prefix :: "string option"
  loc_file :: "string option"
  loc_type :: loc_type

text \<open>\<open>xs[0]\<close>: \<open>None\<close> is \<open>undefined\<close>.\<close>

definition first_elem :: "'a list \<Rightarrow> 'a option" where
  "first_elem xs = (case xs of [] \<Rightarrow> None | x # _ \<Rightarrow> Some x)"

definition resolveKey :: "string \<Rightarrow> location" where
  "resolveKey key0 =
     (if js_indexOf key0 ''s3://'' = 0
      then (let key = js_substr key0 5 (int (length key0) - 1)
            in \<lparr> loc_bucket = first_elem (js_split key ''/''),
                 loc_prefix = Some (js_substr key (js_indexOf key ''/'' + 1) (int (length key))),
                 loc_file = None,
                 loc_type = TYPE_S3 \<rparr>)
      else \<lparr> loc_bucket = None, loc_prefix = None, loc_file = Some key0, loc_type = TYPE_FILE \<rparr>)"

text \<open>\<open>getFileName\<close>: the part of the key after its last slash.\<close>

definition getFileName :: "string \<Rightarrow> string" where
  "getFileName key = js_substr key (js_lastIndexOf key ''/'' + 1) (int (length key))"

section \<open>Results of calls, promises and callbacks\<close>

text \<open>
  A user function either returns a value or throws one. For a function used in async mode
  the same type reads: the promise it returns is fulfilled with a value or rejected with
  one. User functions are modelled by their first argument only and as settling.
\<close>

datatype 'a ufres = Returns 'a | Throws jsval

text \<open>A settled promise.\<close>

datatype 'a promise = Resolved 'a | Rejected jsval

text \<open>A call either throws synchronously or returns.\<close>

datatype 'a call = Threw jsval | Returned 'a

text \<open>
  The argument \<open>err\<close> handed to the internal node-style callbacks: \<open>Completed\<close> is
  \<open>callback(null)\<close> after the last key, \<open>Failed e\<close> is \<open>callback(e)\<close> on an error path.
\<close>

datatype outcome = Completed | Failed jsval

text \<open>\<open>err => { if (err) fail(err); else success(); }\<close>\<close>

fun settle :: "outcome \<Rightarrow> unit promise" where
  "settle Completed = Resolved ()"
| "settle (Failed e) = (if truthy e then Rejected e else Resolved ())"

text \<open>\<open>(err, result) => { if (err) fail(err); else success(result); }\<close>, where an error
  path calls \<open>callback(e, null)\<close>; \<open>None\<close> is the result \<open>null\<close>.\<close>

fun settle_result :: "outcome \<Rightarrow> 'a \<Rightarrow> 'a option promise" where
  "settle_result Completed v = Resolved (Some v)"
| "settle_result (Failed e) v = (if truthy e then Rejected e else Resolved None)"

definition settled :: "'a ufres \<Rightarrow> 'a promise" where
  "settled r = (case r of Returns v \<Rightarrow> Resolved v | Throws e \<Rightarrow> Rejected e)"

text \<open>
  \<open>Promise.all\<close>: the list of the values, or the first rejection (the promises are taken
  to settle in the order they were created).
\<close>

fun promise_all :: "'a promise list \<Rightarrow> 'a list promise" where
  "promise_all [] = Resolved []"
| "promise_all (Rejected e # ps) = Rejected e"
| "promise_all (Resolved v # ps) =
     (case promise_all ps of Rejected e \<Rightarrow> Rejected e | Resolved vs \<Rightarrow> Resolved (v # vs))"

text \<open>\<open>entries.forEach(func)\<close> inside a \<open>try\<close>: the first value thrown, if any.\<close>

fun each_sync :: "('a \<Rightarrow> 'b ufres) \<Rightarrow> 'a list \<Rightarrow> jsval option" where
  "each_sync func [] = None"
| "each_sync func (x # xs) =
     (case func x of Throws e \<Rightarrow> Some e | Returns _ \<Rightarrow> each_sync func xs)"

text \<open>\<open>entries.map(func)\<close> inside a \<open>try\<close>.\<close>

fun map_sync :: "('a \<Rightarrow> 'b ufres) \<Rightarrow> 'a list \<Rightarrow> jsval + 'b list" where
  "map_sync func [] = Inr []"
| "map_sync func (x # xs) =
     (case func x of Throws e \<Rightarrow> Inl e
      | Returns y \<Rightarrow> (case map_sync func xs of Inl e \<Rightarrow> Inl e | Inr ys \<Rightarrow> Inr (y # ys)))"

text \<open>\<open>entries.filter(func)\<close> inside a \<open>try\<close>: an entry is kept when the result is truthy.\<close>

fun filter_sync :: "('a \<Rightarrow> jsval ufres) \<Rightarrow> 'a list \<Rightarrow> jsval + 'a list" where
  "filter_sync func [] = Inr []"
| "filter_sync func (x # xs) =
     (case func x of Throws e \<Rightarrow> Inl e
      | Returns r \<Rightarrow>
          (case filter_sync func xs of Inl e \<Rightarrow> Inl e
           | Inr ys \<Rightarrow> Inr (if truthy r then x # ys else ys)))"

section \<open>The object store and the instance configuration\<close>

datatype request =
    GetObject string string
  | PutObject string string string
  | CopyObject string string string string
  | DeleteObject string string
  | DeleteObjects string "string list"
  | ListObjects string string string

text \<open>
  The environment of an instance. The external store: the bodies, as bytes, by bucket
  and key, and the answer of the store to a listing request (bucket, prefix, marker).
  The runtime: \<open>decode enc body\<close> is \<open>body.toString(enc)\<close> of a buffer, which throws for
  an encoding it does not know. A text is modelled by the bytes of its UTF-8 form, which
  is how a body that is a text is stored. \<open>in_flight\<close> holds the requests issued and not
  yet answered; \<open>history\<close> holds, in order, the groups of requests that were outstanding
  together. The store is reliable: a request fails only for an object that is absent.
\<close>

record world =
  objects :: "string \<times> string \<Rightarrow> string option"
  listing :: "string \<Rightarrow> string \<Rightarrow> string \<Rightarrow> jsval + string list"
  decode :: "string \<Rightarrow> string \<Rightarrow> string ufres"
  in_flight :: "request list"
  history :: "request list list"

definition issue :: "request \<Rightarrow> world \<Rightarrow> world" where
  "issue r w = w\<lparr>in_flight := in_flight w @ [r]\<rparr>"

text \<open>Control returns to the event loop until the outstanding requests are answered.\<close>

definition await :: "world \<Rightarrow> world" where
  "await w = (if in_flight w = [] then w
              else w\<lparr>history := history w @ [in_flight w], in_flight := []\<rparr>)"

text \<open>The fields of an \<open>S3renity\<close> instance; \<open>delimiter = None\<close> is whole-object mode.\<close>

record config =
  bucket :: string
  key_prefix :: string
  marker :: string
  encoding :: string
  delimiter :: "string option"
  hasTarget :: bool
  targetBucket :: string
  targetPrefix :: string
  transformer :: "(string \<Rightarrow> string ufres) option"

text \<open>The two error values of the configuration surface (messages shortened).\<close>

definition S3_PATH_ERROR :: jsval where
  "S3_PATH_ERROR = JError ''Error'' ''Context needs to be a valid s3 path.''"

definition INPUT_FUNCTION_ERROR :: jsval where
  "INPUT_FUNCTION_ERROR = JError ''TypeError'' ''func must be a function.''"

definition newline :: string where
  "newline = [CHR 0x0A]"

definition or_default :: "'a option \<Rightarrow> 'a \<Rightarrow> 'a" where
  "or_default v d = (case v of None \<Rightarrow> d | Some x \<Rightarrow> x)"

definition set_context :: "string \<Rightarrow> config \<Rightarrow> config call" where
  "set_context key c =
     (let target = resolveKey key
      in if loc_type target \<noteq> TYPE_S3 then Threw S3_PATH_ERROR
         else Returned (c\<lparr>bucket := or_default (loc_bucket target) [],
                          key_prefix := or_default (loc_prefix target) []\<rparr>))"

text \<open>\<open>this.delimiter = delimiter || '\n'\<close>: the empty string is falsy.\<close>

definition split :: "string option \<Rightarrow> config \<Rightarrow> config" where
  "split d c = c\<lparr>delimiter := Some (case d of None \<Rightarrow> newline
                                        | Some s \<Rightarrow> if s = [] then newline else s)\<rparr>"

definition target :: "string \<Rightarrow> config \<Rightarrow> config call" where
  "target t c =
     (let output = resolveKey t
      in if loc_type output \<noteq> TYPE_S3 then Threw S3_PATH_ERROR
         else Returned (c\<lparr>targetBucket := or_default (loc_bucket output) [],
                          targetPrefix := or_default (loc_prefix output) [],
                          hasTarget := True\<rparr>))"

section \<open>Promise wrappers of the store operations\<close>

text \<open>
  \<open>get\<close>: the body is decoded with the encoding of the instance,
  \<open>object.Body.toString(this.encoding)\<close>, unless a transformer is set, which is given
  the bytes; a throw of either rejects the promise.
\<close>

definition get :: "config \<Rightarrow> string \<Rightarrow> string \<Rightarrow> world \<Rightarrow> string promise \<times> world" where
  "get c arg1 arg2 w =
     (let tgt = resolveKey arg1;
          b = (if loc_type tgt = TYPE_S3 then or_default (loc_bucket tgt) [] else arg1);
          k = (if loc_type tgt = TYPE_S3 then or_default (loc_prefix tgt) [] else arg2);
          w' = issue (GetObject b k) w
      in case objects w (b, k) of
           None \<Rightarrow> (Rejected (JError ''NoSuchKey'' k), w')
         | Some body \<Rightarrow>
             (case transformer c of
                None \<Rightarrow> (settled (decode w (encoding c) body), w')
              | Some t \<Rightarrow> (settled (t body), w')))"

definition put :: "config \<Rightarrow> string \<Rightarrow> string \<Rightarrow> string \<Rightarrow> world \<Rightarrow> unit promise \<times> world" where
  "put c b k body w =
     (Resolved (), issue (PutObject b k body) (w\<lparr>objects := (objects w)((b, k) \<mapsto> body)\<rparr>))"

definition copy :: "config \<Rightarrow> string \<Rightarrow> string \<Rightarrow> string \<Rightarrow> string \<Rightarrow> world \<Rightarrow> unit promise \<times> world" where
  "copy c sourceBucket sourceKey tb tk w =
     (let w' = issue (CopyObject sourceBucket sourceKey tb tk) w
      in case objects w (sourceBucket, sourceKey) of
           None \<Rightarrow> (Rejected (JError ''NoSuchKey'' sourceKey), w')
         | Some body \<Rightarrow> (Resolved (), w'\<lparr>objects := (objects w)((tb, tk) \<mapsto> body)\<rparr>))"

definition deleteObjects :: "config \<Rightarrow> string \<Rightarrow> string list \<Rightarrow> world \<Rightarrow> unit promise \<times> world" where
  "deleteObjects c b keys w =
     (Resolved (),
      issue (DeleteObjects b keys)
        (w\<lparr>objects := (\<lambda>(b', k'). if b' = b \<and> k' \<in> set keys then None else objects w (b', k'))\<rparr>))"

text \<open>\<open>delete(bucket, key)\<close>: an array of keys goes to \<open>deleteObjects\<close>.\<close>

datatype key_arg = OneKey string | ManyKeys "string list"

definition delete :: "config \<Rightarrow> string \<Rightarrow> key_arg \<Rightarrow> world \<Rightarrow> unit promise \<times> world" where
  "delete c b key w =
     (case key of
        ManyKeys keys \<Rightarrow> deleteObjects c b keys w
      | OneKey k \<Rightarrow> (Resolved (), issue (DeleteObject b k) (w\<lparr>objects := (objects w)((b, k) := None)\<rparr>)))"

text \<open>\<open>if (prefix[prefix.length - 1] != '/') prefix += '/';\<close>\<close>

definition with_slash :: "string \<Rightarrow> string" where
  "with_slash p = (if p = [] \<or> last p \<noteq> CHR ''/'' then p @ ''/'' else p)"

definition listObjects :: "config \<Rightarrow> string \<Rightarrow> string \<Rightarrow> string \<Rightarrow> world \<Rightarrow> string list promise \<times> world" where
  "listObjects c b p m w =
     (let p' = with_slash p;
          w' = issue (ListObjects b p' m) w
      in case listing w b p' m of
           Inl err \<Rightarrow> (Rejected err, w')
         | Inr keys \<Rightarrow>
             (Resolved (case keys of [] \<Rightarrow> [] | k # ks \<Rightarrow> if k = p' then ks else keys), w'))"

section \<open>Record splitter\<close>

text \<open>
  \<open>splitObject\<close>. The \<open>encoding\<close> argument is defaulted (\<open>e\<close>) and then never used:
  the body comes from \<open>get\<close>, decoded with the encoding of the instance.
\<close>

definition splitObject ::
  "config \<Rightarrow> string \<Rightarrow> string \<Rightarrow> string option \<Rightarrow> string option \<Rightarrow> world \<Rightarrow> string list promise \<times> world" where
  "splitObject c b key delim enc w =
     (let d = or_default delim newline;
          e = or_default enc ''utf8''
      in case get c b key w of
           (Rejected err, w1) \<Rightarrow> (Rejected err, await w1)
         | (Resolved body, w1) \<Rightarrow>
             (if body = [] then (Resolved [], await w1)
              else (Resolved (js_split body d), await w1)))"

section \<open>Working-set enumerator\<close>

text \<open>
  \<open>_keys\<close> of \<open>list\<close>. The loop ends when the store answers with an empty page, which a
  store need not do, so the recursion is bounded by a number of pages; \<open>None\<close> says that
  the bound was reached.
\<close>

fun list_keys ::
  "nat \<Rightarrow> config \<Rightarrow> string list \<Rightarrow> string \<Rightarrow> world \<Rightarrow> (string list promise \<times> world) option" where
  "list_keys 0 c allKeys m w = None"
| "list_keys (Suc n) c allKeys m w =
     (case listObjects c (bucket c) (key_prefix c) m w of
        (Rejected e, w1) \<Rightarrow> Some (Rejected e, await w1)
      | (Resolved keys, w1) \<Rightarrow>
          (if keys = [] then Some (Resolved allKeys, await w1)
           else list_keys n c (allKeys @ keys) (last keys) (await w1)))"

definition list :: "config \<Rightarrow> nat \<Rightarrow> world \<Rightarrow> (string list promise \<times> world) option" where
  "list c n w = list_keys n c [] (marker c) w"

section \<open>join\<close>

text \<open>\<open>keys.forEach(key => getPromises.push(this.get(this.bucket, key)))\<close>: every request
  is issued before control returns to the event loop.\<close>

fun get_each :: "config \<Rightarrow> string list \<Rightarrow> world \<Rightarrow> string promise list \<times> world" where
  "get_each c [] w = ([], w)"
| "get_each c (key # keys) w =
     (case get c (bucket c) key w of
        (p, w1) \<Rightarrow> (case get_each c keys w1 of (ps, w2) \<Rightarrow> (p # ps, w2)))"

definition join ::
  "config \<Rightarrow> string option \<Rightarrow> nat \<Rightarrow> world \<Rightarrow> (string promise \<times> world) option" where
  "join c delim n w =
     (let d = or_default delim newline
      in case list c n w of
           None \<Rightarrow> None
         | Some (Rejected e, w1) \<Rightarrow> Some (Rejected e, w1)
         | Some (Resolved keys, w1) \<Rightarrow>
             (case get_each c keys w1 of
                (getPromises, w2) \<Rightarrow>
                  (case promise_all getPromises of
                     Rejected e \<Rightarrow> Some (Rejected e, await w2)
                   | Resolved objs \<Rightarrow> Some (Resolved (js_join objs (Some d)), await w2))))"

section \<open>forEach\<close>

text \<open>
  In the iterators of the four operations the synchronous and the async branch differ
  only in how a failure of the user function is received, by a \<open>catch\<close> block or by
  the rejection handler of the promise the function returned. Both hand the value to
  the callback, so each iterator has one case for the two branches. Where the branches
  do differ (\<open>_eachSplit\<close>, \<open>_mapSplit\<close>, \<open>_filterSplitObject\<close>) the model follows
  \<open>isAsync\<close>. A \<open>then\<close> on the promise of a store request is an \<open>await\<close>.
\<close>

fun eachObject ::
  "config \<Rightarrow> (string \<Rightarrow> 'r ufres) \<Rightarrow> bool \<Rightarrow> string list \<Rightarrow> world \<Rightarrow> outcome \<times> world" where
  "eachObject c func isAsync [] w = (Completed, w)"
| "eachObject c func isAsync (key # keys) w =
     (case get c (bucket c) key w of
        (Rejected e, w1) \<Rightarrow> (Failed e, await w1)
      | (Resolved body, w1) \<Rightarrow>
          (case func body of
             Throws e \<Rightarrow> (Failed e, await w1)
           | Returns _ \<Rightarrow> eachObject c func isAsync keys (await w1)))"

definition eachSplit :: "(string \<Rightarrow> 'r ufres) \<Rightarrow> bool \<Rightarrow> string list \<Rightarrow> unit promise" where
  "eachSplit func isAsync entries =
     (if isAsync
      then (case promise_all (map (\<lambda>entry. settled (func entry)) entries) of
              Rejected e \<Rightarrow> Rejected e
            | Resolved _ \<Rightarrow> Resolved ())
      else (case each_sync func entries of
              Some err \<Rightarrow> Rejected err
            | None \<Rightarrow> Resolved ()))"

fun forEach_splitObjects ::
  "config \<Rightarrow> (string \<Rightarrow> 'r ufres) \<Rightarrow> bool \<Rightarrow> string list \<Rightarrow> world \<Rightarrow> outcome \<times> world" where
  "forEach_splitObjects c func isAsync [] w = (Completed, w)"
| "forEach_splitObjects c func isAsync (key # keys) w =
     (case splitObject c (bucket c) key (delimiter c) (Some (encoding c)) w of
        (Rejected e, w1) \<Rightarrow> (Failed e, w1)
      | (Resolved entries, w1) \<Rightarrow>
          (case eachSplit func isAsync entries of
             Rejected e \<Rightarrow> (Failed e, w1)
           | Resolved _ \<Rightarrow> forEach_splitObjects c func isAsync keys w1))"

text \<open>
  The public operations take the user function as an option: \<open>None\<close> is an argument that
  is not a function. \<open>isAsync = None\<close> is the omitted argument.
\<close>

definition forEach ::
  "config \<Rightarrow> (string \<Rightarrow> 'r ufres) option \<Rightarrow> bool option \<Rightarrow> nat \<Rightarrow> world
    \<Rightarrow> (unit promise \<times> world) option call" where
  "forEach c func isAsync n w =
     (case func of
        None \<Rightarrow> Threw INPUT_FUNCTION_ERROR
      | Some f \<Rightarrow>
          Returned
            (case list c n w of
               None \<Rightarrow> None
             | Some (Rejected e, w1) \<Rightarrow> Some (Rejected e, w1)
             | Some (Resolved keys, w1) \<Rightarrow>
                 (if delimiter c = None
                  then (case eachObject c f (or_default isAsync False) keys w1 of
                          (err, w2) \<Rightarrow> Some (settle err, w2))
                  else (case forEach_splitObjects c f (or_default isAsync False) keys w1 of
                          (err, w2) \<Rightarrow> Some (settle err, w2)))))"

section \<open>map\<close>

definition isSplit :: "config \<Rightarrow> bool" where
  "isSplit c = (delimiter c \<noteq> None)"

text \<open>The write in \<open>_output\<close>; its continuation \<open>_continue\<close> is in the two iterators.\<close>

definition map_output :: "config \<Rightarrow> string \<Rightarrow> string \<Rightarrow> world \<Rightarrow> unit promise \<times> world" where
  "map_output c key body w =
     (if hasTarget c then put c (targetBucket c) (targetPrefix c @ getFileName key) body w
      else put c (bucket c) key body w)"

definition mapSplit :: "(string \<Rightarrow> string ufres) \<Rightarrow> bool \<Rightarrow> string list \<Rightarrow> string list promise" where
  "mapSplit func isAsync entries =
     (if isAsync then promise_all (map (\<lambda>entry. settled (func entry)) entries)
      else (case map_sync func entries of Inl err \<Rightarrow> Rejected err | Inr es \<Rightarrow> Resolved es))"

text \<open>
  \<open>_mapObject\<close> and \<open>_splitObjects\<close> of \<open>map\<close>. After the write of a key, \<open>_continue\<close>
  goes on with \<open>_splitObjects\<close> if \<open>isSplit\<close> and with \<open>_mapObject\<close> otherwise.
\<close>

fun mapObject ::
    "config \<Rightarrow> (string \<Rightarrow> string ufres) \<Rightarrow> bool \<Rightarrow> string list \<Rightarrow> world \<Rightarrow> outcome \<times> world"
  and map_splitObjects ::
    "config \<Rightarrow> (string \<Rightarrow> string ufres) \<Rightarrow> bool \<Rightarrow> string list \<Rightarrow> world \<Rightarrow> outcome \<times> world"
where
  "mapObject c func isAsync [] w = (Completed, w)"
| "mapObject c func isAsync (key # keys) w =
     (case get c (bucket c) key w of
        (Rejected e, w1) \<Rightarrow> (Failed e, await w1)
      | (Resolved body, w1) \<Rightarrow>
          (case func body of
             Throws e \<Rightarrow> (Failed e, await w1)
           | Returns newBody \<Rightarrow>
               (case map_output c key newBody (await w1) of
                  (Rejected e, w2) \<Rightarrow> (Failed e, await w2)
                | (Resolved _, w2) \<Rightarrow>
                    (if isSplit c then map_splitObjects c func isAsync keys (await w2)
                     else mapObject c func isAsync keys (await w2)))))"
| "map_splitObjects c func isAsync [] w = (Completed, w)"
| "map_splitObjects c func isAsync (key # keys) w =
     (case splitObject c (bucket c) key (delimiter c) (Some (encoding c)) w of
        (Rejected e, w1) \<Rightarrow> (Failed e, w1)
      | (Resolved entries, w1) \<Rightarrow>
          (case mapSplit func isAsync entries of
             Rejected e \<Rightarrow> (Failed e, w1)
           | Resolved newEntries \<Rightarrow>
               (case map_output c key (js_join newEntries (delimiter c)) w1 of
                  (Rejected e, w2) \<Rightarrow> (Failed e, await w2)
                | (Resolved _, w2) \<Rightarrow>
                    (if isSplit c then map_splitObjects c func isAsync keys (await w2)
                     else mapObject c func isAsync keys (await w2)))))"

text \<open>\<open>_continue\<close>, as the two iterators call it after the write of a key.\<close>

definition map_continue ::
  "config \<Rightarrow> (string \<Rightarrow> string ufres) \<Rightarrow> bool \<Rightarrow> string list \<Rightarrow> world \<Rightarrow> outcome \<times> world" where
  "map_continue c func isAsync keys w =
     (if isSplit c then map_splitObjects c func isAsync keys w
      else mapObject c func isAsync keys w)"

text \<open>The entry of \<open>map\<close>: \<open>if (isSplit) _mapObject(keys, ...) else _splitObjects(keys, ...)\<close>.\<close>

definition map_entry ::
  "config \<Rightarrow> (string \<Rightarrow> string ufres) \<Rightarrow> bool \<Rightarrow> string list \<Rightarrow> world \<Rightarrow> outcome \<times> world" where
  "map_entry c func isAsync keys w =
     (if isSplit c then mapObject c func isAsync keys w
      else map_splitObjects c func isAsync keys w)"

definition map_op ::
  "config \<Rightarrow> (string \<Rightarrow> string ufres) option \<Rightarrow> bool option \<Rightarrow> nat \<Rightarrow> world
    \<Rightarrow> (unit promise \<times> world) option call" where
  "map_op c func isAsync n w =
     (case func of
        None \<Rightarrow> Threw INPUT_FUNCTION_ERROR
      | Some f \<Rightarrow>
          Returned
            (case list c n w of
               None \<Rightarrow> None
             | Some (Rejected e, w1) \<Rightarrow> Some (Rejected e, w1)
             | Some (Resolved keys, w1) \<Rightarrow>
                 (case map_entry c f (or_default isAsync False) keys w1 of
                    (err, w2) \<Rightarrow> Some (settle err, w2))))"

section \<open>reduce\<close>

text \<open>
  The error of an assignment \<open>name = v\<close> to an identifier that no enclosing scope
  declares. The module is in strict mode, where such an assignment raises a
  \<open>ReferenceError\<close> instead of creating a global variable.
\<close>

definition reference_error :: "string \<Rightarrow> jsval" where
  "reference_error name = JError ''ReferenceError'' (name @ '' is not defined'')"

fun reduceObjects ::
  "config \<Rightarrow> ('a \<Rightarrow> string \<Rightarrow> string \<Rightarrow> 'a ufres) \<Rightarrow> bool \<Rightarrow> string list \<Rightarrow> 'a \<Rightarrow> world
    \<Rightarrow> outcome \<times> 'a \<times> world" where
  "reduceObjects c func isAsync [] v w = (Completed, v, w)"
| "reduceObjects c func isAsync (key # keys) v w =
     (case get c (bucket c) key w of
        (Rejected e, w1) \<Rightarrow> (Failed e, v, await w1)
      | (Resolved body, w1) \<Rightarrow>
          (case func v body key of
             Throws e \<Rightarrow> (Failed e, v, await w1)
           | Returns newValue \<Rightarrow> reduceObjects c func isAsync keys newValue (await w1)))"

text \<open>
  \<open>_splitAndReduceObjects\<close>. Its statement \<open>key = keys.shift();\<close> has no declaration of
  \<open>key\<close> in scope (the \<open>let key\<close> of \<open>_reduceObjects\<close> and the parameter of
  \<open>_reduceSplitEntries\<close> are local to those functions), so it throws. The statements
  after it, and \<open>_reduceSplitEntries\<close> which only they call, are never reached.
\<close>

fun splitAndReduceObjects ::
  "config \<Rightarrow> ('a \<Rightarrow> string \<Rightarrow> string \<Rightarrow> 'a ufres) \<Rightarrow> bool \<Rightarrow> string list \<Rightarrow> 'a \<Rightarrow> world
    \<Rightarrow> (outcome \<times> 'a \<times> world) call" where
  "splitAndReduceObjects c func isAsync [] v w = Returned (Completed, v, w)"
| "splitAndReduceObjects c func isAsync (k # keys) v w = Threw (reference_error ''key'')"

text \<open>A throw inside the \<open>then\<close> callback of \<open>list()\<close> reaches \<open>.catch(fail)\<close>.\<close>

definition reduce ::
  "config \<Rightarrow> ('a \<Rightarrow> string \<Rightarrow> string \<Rightarrow> 'a ufres) option \<Rightarrow> 'a \<Rightarrow> bool option \<Rightarrow> nat \<Rightarrow> world
    \<Rightarrow> ('a option promise \<times> world) option call" where
  "reduce c func initialValue isAsync n w =
     (case func of
        None \<Rightarrow> Threw INPUT_FUNCTION_ERROR
      | Some f \<Rightarrow>
          Returned
            (case list c n w of
               None \<Rightarrow> None
             | Some (Rejected e, w1) \<Rightarrow> Some (Rejected e, w1)
             | Some (Resolved keys, w1) \<Rightarrow>
                 (if delimiter c = None
                  then (case reduceObjects c f (or_default isAsync False) keys initialValue w1 of
                          (err, result, w2) \<Rightarrow> Some (settle_result err result, w2))
                  else (case splitAndReduceObjects c f (or_default isAsync False) keys initialValue w1 of
                          Threw e \<Rightarrow> Some (Rejected e, w1)
                        | Returned (err, result, w2) \<Rightarrow> Some (settle_result err result, w2)))))"

section \<open>filter\<close>

definition FILTER_RESULT_ERROR :: jsval where
  "FILTER_RESULT_ERROR = JError ''TypeError'' ''Filter function must return a boolean''"

definition checkResult :: "jsval \<Rightarrow> unit call" where
  "checkResult result =
     (if \<not> is_boolean result then Threw FILTER_RESULT_ERROR else Returned ())"

text \<open>\<open>keepObjects.forEach(key => promises.push(this.copy(...)))\<close>\<close>

fun copy_each :: "config \<Rightarrow> string list \<Rightarrow> world \<Rightarrow> unit promise list \<times> world" where
  "copy_each c [] w = ([], w)"
| "copy_each c (key # keys) w =
     (case copy c (bucket c) key (targetBucket c) (targetPrefix c @ getFileName key) w of
        (p, w1) \<Rightarrow> (case copy_each c keys w1 of (ps, w2) \<Rightarrow> (p # ps, w2)))"

definition finish :: "config \<Rightarrow> string list \<Rightarrow> string list \<Rightarrow> world \<Rightarrow> outcome \<times> world" where
  "finish c keepObjects removeObjects w =
     (if hasTarget c
      then (case copy_each c keepObjects w of
              (promises, w1) \<Rightarrow>
                (case promise_all promises of
                   Rejected e \<Rightarrow> (Failed e, await w1)
                 | Resolved _ \<Rightarrow> (Completed, await w1)))
      else (case delete c (bucket c) (ManyKeys removeObjects) w of
              (Rejected e, w1) \<Rightarrow> (Failed e, await w1)
            | (Resolved _, w1) \<Rightarrow> (Completed, await w1)))"

text \<open>
  \<open>_filterObjects\<close>. A throw of \<open>checkResult\<close> happens inside a \<open>then\<close> callback, whose
  promise is rejected and handled by \<open>.catch(callback)\<close>.
\<close>

fun filterObjects ::
  "config \<Rightarrow> (string \<Rightarrow> jsval ufres) \<Rightarrow> bool \<Rightarrow> string list \<Rightarrow> string list \<Rightarrow> string list
    \<Rightarrow> world \<Rightarrow> outcome \<times> world" where
  "filterObjects c func isAsync [] keepObjects removeObjects w =
     finish c keepObjects removeObjects w"
| "filterObjects c func isAsync (key # keys) keepObjects removeObjects w =
     (case get c (bucket c) key w of
        (Rejected e, w1) \<Rightarrow> (Failed e, await w1)
      | (Resolved body, w1) \<Rightarrow>
          (case func body of
             Throws e \<Rightarrow> (Failed e, await w1)
           | Returns result \<Rightarrow>
               (case checkResult result of
                  Threw e \<Rightarrow> (Failed e, await w1)
                | Returned _ \<Rightarrow>
                    (if truthy result
                     then filterObjects c func isAsync keys (keepObjects @ [key]) removeObjects (await w1)
                     else filterObjects c func isAsync keys keepObjects (removeObjects @ [key]) (await w1)))))"

text \<open>
  \<open>_filterSplitObject\<close>. The async branch starts with \<open>promises = [];\<close>, and no scope
  of \<open>filter\<close> declares \<open>promises\<close> (the \<open>let promises\<close> of \<open>_finish\<close> is local to a
  block there), so the executor throws and the promise is rejected. The statements after
  it are never reached.
\<close>

definition filterSplitObject ::
  "(string \<Rightarrow> jsval ufres) \<Rightarrow> bool \<Rightarrow> string list \<Rightarrow> string list promise" where
  "filterSplitObject func isAsync entries =
     (if isAsync then Rejected (reference_error ''promises'')
      else (case filter_sync func entries of
              Inl err \<Rightarrow> Rejected err
            | Inr es \<Rightarrow> Resolved es))"

fun filter_splitObjects ::
  "config \<Rightarrow> (string \<Rightarrow> jsval ufres) \<Rightarrow> bool \<Rightarrow> string list \<Rightarrow> world \<Rightarrow> outcome \<times> world" where
  "filter_splitObjects c func isAsync [] w = (Completed, w)"
| "filter_splitObjects c func isAsync (key # keys) w =
     (case splitObject c (bucket c) key (delimiter c) (Some (encoding c)) w of
        (Rejected e, w1) \<Rightarrow> (Failed e, w1)
      | (Resolved entries, w1) \<Rightarrow>
          (case filterSplitObject func isAsync entries of
             Rejected e \<Rightarrow> (Failed e, w1)
           | Resolved newEntries \<Rightarrow>
               (let newBody = js_join newEntries (delimiter c);
                    tb = (if hasTarget c then targetBucket c else bucket c);
                    tk = (if hasTarget c then targetPrefix c @ getFileName key else key)
                in case put c tb tk newBody w1 of
                     (Rejected e, w2) \<Rightarrow> (Failed e, await w2)
                   | (Resolved _, w2) \<Rightarrow> filter_splitObjects c func isAsync keys (await w2))))"

definition filter_op ::
  "config \<Rightarrow> (string \<Rightarrow> jsval ufres) option \<Rightarrow> bool option \<Rightarrow> nat \<Rightarrow> world
    \<Rightarrow> (unit promise \<times> world) option call" where
  "filter_op c func isAsync n w =
     (case func of
        None \<Rightarrow> Threw INPUT_FUNCTION_ERROR
      | Some f \<Rightarrow>
          Returned
            (case list c n w of
               None \<Rightarrow> None
             | Some (Rejected e, w1) \<Rightarrow> Some (Rejected e, w1)
             | Some (Resolved keys, w1) \<Rightarrow>
                 (if delimiter c = None
                  then (case filterObjects c f (or_default isAsync False) keys [] [] w1 of
                          (err, w2) \<Rightarrow> Some (settle err, w2))
                  else (case filter_splitObjects c f (or_default isAsync False) keys w1 of
                          (err, w2) \<Rightarrow> Some (settle err, w2)))))"

definition clean :: "config \<Rightarrow> nat \<Rightarrow> world \<Rightarrow> (unit promise \<times> world) option call" where
  "clean c n w = filter_op c (Some (\<lambda>body. Returns (JBool (0 < length body)))) None n w"

section \<open>Observations on the result of an operation\<close>

definition final_promise :: "('a promise \<times> world) option call \<Rightarrow> 'a promise option" where
  "final_promise r = (case r of Returned (Some (p, w)) \<Rightarrow> Some p | _ \<Rightarrow> None)"

definition final_world :: "('a promise \<times> world) option call \<Rightarrow> world option" where
  "final_world r = (case r of Returned (Some (p, w)) \<Rightarrow> Some w | _ \<Rightarrow> None)"

text \<open>The body stored under a bucket and key when the operation has settled.\<close>

definition stored :: "('a promise \<times> world) option call \<Rightarrow> string \<Rightarrow> string \<Rightarrow> string option" where
  "stored r b k = (case final_world r of Some w \<Rightarrow> objects w (b, k) | None \<Rightarrow> None)"

text \<open>The requests the store has answered, in groups that were outstanding together.\<close>

definition answered :: "('a promise \<times> world) option call \<Rightarrow> request list list" where
  "answered r = (case final_world r of Some w \<Rightarrow> history w | None \<Rightarrow> [])"

text \<open>The same of \<open>list\<close> and \<open>join\<close>, which have no synchronous throw.\<close>

definition asked :: "('a promise \<times> world) option \<Rightarrow> request list list" where
  "asked r = (case r of Some (p, w) \<Rightarrow> history w | None \<Rightarrow> [])"

text \<open>The value thrown by a call, if it threw.\<close>

definition thrown :: "'a call \<Rightarrow> jsval option" where
  "thrown r = (case r of Threw e \<Rightarrow> Some e | Returned _ \<Rightarrow> None)"

section \<open>Predicates and concrete instances used in the statements\<close>






text \<open>
  A runtime that knows the encodings \<open>utf8\<close>, where the text of a body is its bytes, and
  \<open>hex\<close>, where it is two digits for every byte.
\<close>

definition hex_digit :: "nat \<Rightarrow> char" where
  "hex_digit n = ''0123456789abcdef'' ! (n mod 16)"

definition hex_text :: "string \<Rightarrow> string" where
  "hex_text body =
     concat (map (\<lambda>c. [hex_digit (of_char c div 16), hex_digit (of_char c mod 16)]) body)"

definition demo_decode :: "string \<Rightarrow> string \<Rightarrow> string ufres" where
  "demo_decode enc body =
     (if enc = ''utf8'' \<or> enc = ''utf-8'' then Returns body
      else if enc = ''hex'' then Returns (hex_text body)
      else Throws (JError ''TypeError'' ''Unknown encoding''))"

definition demo_config :: config where
  "demo_config =
     \<lparr> bucket = ''logs'', key_prefix = ''in'', marker = '''', encoding = ''utf8'',
       delimiter = None, hasTarget = False, targetBucket = '''', targetPrefix = '''',
       transformer = None \<rparr>"

text \<open>One object with the body of three lines \<open>a\<close>, \<open>b\<close>, \<open>c\<close>, after a directory marker.\<close>

definition one_object_world :: world where
  "one_object_world =
     \<lparr> objects = [(''logs'', ''in/k1'') \<mapsto> ''a'' @ newline @ ''b'' @ newline @ ''c''],
       listing = (\<lambda>b p m. if m = '''' then Inr [''in/'', ''in/k1''] else Inr []),
       decode = demo_decode, in_flight = [], history = [] \<rparr>"

text \<open>A listing in two pages.\<close>

definition paged_world :: world where
  "paged_world =
     \<lparr> objects = Map.empty,
       listing = (\<lambda>b p m. if m = '''' then Inr [''in/'', ''in/k1'', ''in/k2'']
                          else if m = ''in/k2'' then Inr [''in/k3'', ''in/k4'']
                          else Inr []),
       decode = demo_decode, in_flight = [], history = [] \<rparr>"

text \<open>The same instance with the encoding \<open>hex\<close>, and with a target.\<close>

definition hex_config :: config where
  "hex_config = demo_config\<lparr>encoding := ''hex''\<rparr>"

definition target_config :: config where
  "target_config = demo_config\<lparr>hasTarget := True, targetBucket := ''kept'', targetPrefix := ''out/''\<rparr>"

text \<open>One object with an empty body.\<close>

definition empty_object_world :: world where
  "empty_object_world =
     \<lparr> objects = [(''logs'', ''in/empty'') \<mapsto> ''''],
       listing = (\<lambda>b p m. if m = '''' then Inr [''in/empty''] else Inr []),
       decode = demo_decode, in_flight = [], history = [] \<rparr>"

text \<open>
  Two stores that answer in pages: one whose first page holds the directory marker and
  nothing else, and one whose second page begins with the directory marker.
\<close>

definition marker_only_world :: world where
  "marker_only_world =
     \<lparr> objects = Map.empty,
       listing = (\<lambda>b p m. if m = '''' then Inr [''in/'']
                          else if m = ''in/'' then Inr [''in/k1'']
                          else Inr []),
       decode = demo_decode, in_flight = [], history = [] \<rparr>"

definition late_marker_world :: world where
  "late_marker_world =
     \<lparr> objects = Map.empty,
       listing = (\<lambda>b p m. if m = '''' then Inr [''in/k1'']
                          else if m = ''in/k1'' then Inr [''in/'', ''in/k2'']
                          else Inr []),
       decode = demo_decode, in_flight = [], history = [] \<rparr>"

text \<open>Three objects whose bodies have the lengths 3, 5 and 2.\<close>

definition three_object_world :: world where
  "three_object_world =
     \<lparr> objects = [(''logs'', ''in/k1'') \<mapsto> ''x'' @ newline @ ''y'',
                  (''logs'', ''in/k2'') \<mapsto> ''a'' @ newline @ ''b'' @ newline @ ''c'',
                  (''logs'', ''in/k3'') \<mapsto> ''de''],
       listing = (\<lambda>b p m. if m = '''' then Inr [''in/'', ''in/k1'', ''in/k2'', ''in/k3'']
                          else Inr []),
       decode = demo_decode, in_flight = [], history = [] \<rparr>"

text \<open>User functions: \<open>x => x + '!'\<close>, \<open>(acc, body) => acc + body.length\<close>,
  \<open>entry => true\<close> and \<open>entry => entry != 'b'\<close>.\<close>

definition append_bang :: "string \<Rightarrow> string ufres" where
  "append_bang x = Returns (x @ ''!'')"

definition add_length :: "int \<Rightarrow> string \<Rightarrow> string \<Rightarrow> int ufres" where
  "add_length acc body key = Returns (acc + int (length body))"

definition keep_all :: "string \<Rightarrow> jsval ufres" where
  "keep_all entry = Returns (JBool True)"

definition drop_b :: "string \<Rightarrow> jsval ufres" where
  "drop_b entry = Returns (JBool (entry \<noteq> ''b''))"

fun is_put :: "request \<Rightarrow> bool" where
  "is_put (PutObject b k body) = True"
| "is_put r = False"

text \<open>User functions that fail on a text with the letter \<open>b\<close>: they throw an
  \<open>Error\<close>, or answer with a string where a boolean is due; and one that throws 0.\<close>

definition boom :: jsval where
  "boom = JError ''Error'' ''boom''"

definition has_b :: "string \<Rightarrow> bool" where
  "has_b x = (CHR ''b'' \<in> set x)"

definition each_boom :: "string \<Rightarrow> jsval ufres" where
  "each_boom x = (if has_b x then Throws boom else Returns JUndefined)"

definition map_boom :: "string \<Rightarrow> string ufres" where
  "map_boom x = (if has_b x then Throws boom else Returns x)"

definition reduce_boom :: "int \<Rightarrow> string \<Rightarrow> string \<Rightarrow> int ufres" where
  "reduce_boom acc x key = (if has_b x then Throws boom else Returns (acc + int (length x)))"

definition filter_boom :: "string \<Rightarrow> jsval ufres" where
  "filter_boom x = (if has_b x then Throws boom else Returns (JBool True))"

definition yes_on_b :: "string \<Rightarrow> jsval ufres" where
  "yes_on_b x = (if has_b x then Returns (JStr ''yes'') else Returns (JBool True))"

definition throw_zero :: "string \<Rightarrow> jsval ufres" where
  "throw_zero x = Throws (JNum 0)"

text \<open>The bucket of the instance is a bucket name, which \<open>get\<close> does not take for a path.\<close>

definition plain_bucket :: "config \<Rightarrow> bool" where
  "plain_bucket c = (\<not> prefix ''s3://'' (bucket c))"

text \<open>What \<open>get\<close> and \<open>splitObject\<close> resolve with for a key of the working set.\<close>

definition fetched :: "config \<Rightarrow> world \<Rightarrow> string \<Rightarrow> string promise" where
  "fetched c w key = fst (get c (bucket c) key w)"

definition records :: "config \<Rightarrow> world \<Rightarrow> string \<Rightarrow> string list promise" where
  "records c w key = fst (splitObject c (bucket c) key (delimiter c) (Some (encoding c)) w)"

text \<open>The world after one request was issued and answered.\<close>

definition answer :: "request \<Rightarrow> world \<Rightarrow> world" where
  "answer r w = await (issue r w)"

text \<open>The world after the objects of the keys were fetched one after the other.\<close>

definition fetch_each :: "config \<Rightarrow> string list \<Rightarrow> world \<Rightarrow> world" where
  "fetch_each c keys w = foldl (\<lambda>w k. answer (GetObject (bucket c) k) w) w keys"

text \<open>The world when \<open>list\<close> has settled.\<close>

definition listed :: "config \<Rightarrow> nat \<Rightarrow> world \<Rightarrow> world" where
  "listed c n w = (case list c n w of Some (p, w1) \<Rightarrow> w1 | None \<Rightarrow> w)"

text \<open>
  The operation returned a promise that is rejected with \<open>e\<close>, and the last thing it
  asked of the store, in the world \<open>w2\<close>, was the object of the key \<open>k\<close>.
\<close>

definition aborts_with ::
  "('p promise \<times> world) option call \<Rightarrow> jsval \<Rightarrow> config \<Rightarrow> string \<Rightarrow> world \<Rightarrow> bool" where
  "aborts_with r e c k w2 =
     (r = Returned (Some (Rejected e, answer (GetObject (bucket c) k) w2)))"

text \<open>
  No request is outstanding and every request so far was outstanding alone; and the
  same of the history up to its last group.
\<close>

definition sequential :: "world \<Rightarrow> bool" where
  "sequential w = (in_flight w = [] \<and> (\<forall>g \<in> set (history w). length g = 1))"

definition single_but_last :: "world \<Rightarrow> bool" where
  "single_but_last w = (\<forall>g \<in> set (butlast (history w)). length g = 1)"

text \<open>
  The copy of a kept object to the target as \<open>_finish\<close> requests it,
  \<open>this.copy(this.bucket, key, this.targetBucket, this.targetPrefix + fileName)\<close>, and the
  user function \<open>body => body.indexOf('b') < 0\<close>.
\<close>

definition copy_request :: "config \<Rightarrow> string \<Rightarrow> request" where
  "copy_request c key =
     CopyObject (bucket c) key (targetBucket c) (targetPrefix c @ getFileName key)"

definition no_b :: "string \<Rightarrow> jsval ufres" where
  "no_b x = Returns (JBool (\<not> has_b x))"

section \<open>Properties of the key resolver\<close>

lemma js_indexOf_zero_iff: "js_indexOf s pat = 0 \<longleftrightarrow> prefix pat s"
  by (cases s) (auto simp: Let_def)

lemma js_indexOf_slash_absent:
  "CHR ''/'' \<notin> set b \<Longrightarrow> js_indexOf b ''/'' = - 1"
  by (induction b) (auto simp: Let_def)

lemma js_indexOf_slash_first:
  "CHR ''/'' \<notin> set b \<Longrightarrow> js_indexOf (b @ CHR ''/'' # rest) ''/'' = int (length b)"
  by (induction b) (auto simp: Let_def)

lemma split_scan_slash_absent:
  "CHR ''/'' \<notin> set b \<Longrightarrow> split_scan ''/'' acc b = [rev acc @ b]"
  by (induction b arbitrary: acc) auto

lemma split_scan_slash_first:
  "CHR ''/'' \<notin> set b \<Longrightarrow>
   split_scan ''/'' acc (b @ CHR ''/'' # rest) = (rev acc @ b) # split_scan ''/'' [] rest"
  by (induction b arbitrary: acc) auto

lemma js_substr_drop:
  "0 \<le> n \<Longrightarrow> int (length s) - n \<le> m \<Longrightarrow> js_substr s n m = drop (nat n) s"
  by (auto simp: js_substr_def Let_def min_def max_def)

lemma resolveKey_file:
  "\<not> prefix ''s3://'' key \<Longrightarrow>
   resolveKey key =
     \<lparr> loc_bucket = None, loc_prefix = None, loc_file = Some key, loc_type = TYPE_FILE \<rparr>"
  by (simp add: resolveKey_def js_indexOf_zero_iff)

lemma resolveKey_s3_slash:
  assumes "CHR ''/'' \<notin> set b"
  shows "resolveKey (''s3://'' @ b @ ''/'' @ rest) =
     \<lparr> loc_bucket = Some b, loc_prefix = Some rest, loc_file = None, loc_type = TYPE_S3 \<rparr>"
proof -
  have p: "js_indexOf (''s3://'' @ b @ ''/'' @ rest) ''s3://'' = 0"
    by (simp add: js_indexOf_zero_iff)
  have d: "js_substr (''s3://'' @ b @ ''/'' @ rest) 5
             (int (length (''s3://'' @ b @ ''/'' @ rest)) - 1) = b @ CHR ''/'' # rest"
    by (subst js_substr_drop) auto
  have n: "nat (int (length b) + 1) = Suc (length b)"
    by simp
  have s: "js_substr (b @ CHR ''/'' # rest) (int (length b) + 1) m = rest"
    if "int (length rest) \<le> m" for m
    using that by (subst js_substr_drop) (auto simp: n)
  show ?thesis
    unfolding resolveKey_def p d Let_def
    using assms
    by (simp add: js_indexOf_slash_first js_split_def split_scan_slash_first first_elem_def s)
qed

text \<open>
  Claim C5, as the specification states it, fails: a store URI with no slash after the
  bucket does not resolve to an empty bucket and prefix. For \<open>s3://bucket\<close> the bucket is
  \<open>bucket\<close> and so is the prefix, since \<open>indexOf\<close> answers -1 and \<open>substr\<close> then starts
  at the first character.
\<close>

theorem resolveKey_no_slash_counterexample:
  "resolveKey ''s3://bucket'' =
     \<lparr> loc_bucket = Some ''bucket'', loc_prefix = Some ''bucket'', loc_file = None,
       loc_type = TYPE_S3 \<rparr>"
  by (simp add: resolveKey_def js_substr_def js_split_def first_elem_def Let_def)

lemma first_elem_split_scan:
  "first_elem (split_scan ''/'' acc rest)
     = Some (rev acc @ takeWhile (\<lambda>ch. ch \<noteq> CHR ''/'') rest)"
  by (induction rest arbitrary: acc) (simp_all add: first_elem_def)

lemma resolveKey_s3_bucket:
  "loc_type (resolveKey (''s3://'' @ rest)) = TYPE_S3
   \<and> loc_file (resolveKey (''s3://'' @ rest)) = None
   \<and> loc_bucket (resolveKey (''s3://'' @ rest))
       = Some (takeWhile (\<lambda>ch. ch \<noteq> CHR ''/'') rest)"
proof -
  have p: "js_indexOf (''s3://'' @ rest) ''s3://'' = 0"
    by (simp add: js_indexOf_zero_iff)
  have d: "js_substr (''s3://'' @ rest) 5 (int (length (''s3://'' @ rest)) - 1) = rest"
    by (subst js_substr_drop) auto
  show ?thesis
    unfolding resolveKey_def p d Let_def
    using first_elem_split_scan [of "[]" rest]
    by (simp add: js_split_def)
qed

text \<open>
  Claim C5, amended: every input string resolves to a location. A string that does not
  begin with \<open>s3://\<close> is treated as a local file path, with no bucket and no prefix.
  Every string that begins with \<open>s3://\<close> is a store location, with no file, whose bucket
  is the first path segment: the text after the scheme up to its first slash, all of it
  when it has none. When a slash follows the bucket, the prefix is the remainder after
  that slash.
\<close>

theorem resolveKey_cases:
  "(\<not> prefix ''s3://'' key \<longrightarrow>
      resolveKey key =
        \<lparr> loc_bucket = None, loc_prefix = None, loc_file = Some key, loc_type = TYPE_FILE \<rparr>)
   \<and> loc_type (resolveKey (''s3://'' @ path)) = TYPE_S3
   \<and> loc_file (resolveKey (''s3://'' @ path)) = None
   \<and> loc_bucket (resolveKey (''s3://'' @ path))
       = Some (takeWhile (\<lambda>ch. ch \<noteq> CHR ''/'') path)
   \<and> (CHR ''/'' \<notin> set b \<longrightarrow>
      resolveKey (''s3://'' @ b @ ''/'' @ rest) =
        \<lparr> loc_bucket = Some b, loc_prefix = Some rest, loc_file = None, loc_type = TYPE_S3 \<rparr>)"
  using resolveKey_file [of key] resolveKey_s3_slash [of b rest] resolveKey_s3_bucket [of path]
  by blast

theorem resolveKey_cases_witness:
  "\<not> prefix ''s3://'' ''out/a.txt''
   \<and> resolveKey ''out/a.txt'' =
        \<lparr> loc_bucket = None, loc_prefix = None, loc_file = Some ''out/a.txt'',
          loc_type = TYPE_FILE \<rparr>
   \<and> loc_bucket (resolveKey ''s3://data/logs/2016'') = Some ''data''
   \<and> CHR ''/'' \<notin> set ''data''
   \<and> resolveKey ''s3://data/logs/2016'' =
        \<lparr> loc_bucket = Some ''data'', loc_prefix = Some ''logs/2016'', loc_file = None,
          loc_type = TYPE_S3 \<rparr>"
proof -
  note t = resolveKey_cases [of "''out/a.txt''" "''data/logs/2016''" "''data''" "''logs/2016''"]
  have a: "\<not> prefix ''s3://'' ''out/a.txt''"
    by simp
  have b: "CHR ''/'' \<notin> set ''data''"
    by simp
  from t a have f: "resolveKey ''out/a.txt'' =
      \<lparr> loc_bucket = None, loc_prefix = None, loc_file = Some ''out/a.txt'',
        loc_type = TYPE_FILE \<rparr>"
    by blast
  from t have "loc_bucket (resolveKey (''s3://'' @ ''data/logs/2016''))
      = Some (takeWhile (\<lambda>ch. ch \<noteq> CHR ''/'') ''data/logs/2016'')"
    by blast
  then have k: "loc_bucket (resolveKey ''s3://data/logs/2016'') = Some ''data''"
    by simp
  from t b have "resolveKey (''s3://'' @ ''data'' @ ''/'' @ ''logs/2016'') =
      \<lparr> loc_bucket = Some ''data'', loc_prefix = Some ''logs/2016'', loc_file = None,
        loc_type = TYPE_S3 \<rparr>"
    by blast
  then have r: "resolveKey ''s3://data/logs/2016'' =
      \<lparr> loc_bucket = Some ''data'', loc_prefix = Some ''logs/2016'', loc_file = None,
        loc_type = TYPE_S3 \<rparr>"
    by simp
  from a b f k r show ?thesis
    by (intro conjI)
qed

section \<open>Properties of the record splitter\<close>

lemma split_scan_nonempty: "split_scan sep acc s \<noteq> []"
  by (induction sep acc s rule: split_scan.induct) auto

lemma join_with_Cons: "xs \<noteq> [] \<Longrightarrow> join_with sep (x # xs) = x @ sep @ join_with sep xs"
  by (cases xs) auto

lemma join_split_scan: "sep \<noteq> [] \<Longrightarrow> join_with sep (split_scan sep acc s) = rev acc @ s"
proof (induction sep acc s rule: split_scan.induct)
  case (1 sep acc)
  then show ?case by simp
next
  case (2 sep acc c cs)
  show ?case
  proof (cases "prefix sep (c # cs)")
    case True
    then obtain rest where r: "c # cs = sep @ rest"
      by (auto simp: prefix_def)
    then have d: "drop (length sep) (c # cs) = rest"
      by (metis append_eq_conv_conj)
    have step: "split_scan sep acc (c # cs) = rev acc # split_scan sep [] rest"
      using True 2(3) d by simp
    from 2 True d have "join_with sep (split_scan sep [] rest) = rest"
      by simp
    then have "join_with sep (split_scan sep acc (c # cs)) = rev acc @ sep @ rest"
      unfolding step by (simp add: join_with_Cons split_scan_nonempty)
    then show ?thesis using r by simp
  next
    case False
    with 2 show ?thesis by simp
  qed
qed

lemma join_chars: "join_with [] (map (\<lambda>c. [c]) s) = s"
  by (induction s rule: induct_list012) auto

lemma join_js_split: "join_with sep (js_split s sep) = s"
  by (simp add: js_split_def join_chars join_split_scan)

lemma split_scan_no_sep:
  assumes "sep \<noteq> []"
    and "\<And>ps ss. rev acc @ s = ps @ sep @ ss \<Longrightarrow> length acc \<le> length ps"
  shows "\<forall>r \<in> set (split_scan sep acc s). \<not> sublist sep r"
  using assms
proof (induction sep acc s rule: split_scan.induct)
  case (1 sep acc)
  show ?case
  proof (clarsimp simp: sublist_def)
    fix ps ss assume e: "rev acc = ps @ sep @ ss"
    then have "length acc \<le> length ps" using 1(2)[of ps ss] by simp
    moreover from e have "length acc = length ps + length sep + length ss"
      by (metis length_append length_rev add.assoc)
    ultimately show False using 1(1) by simp
  qed
next
  case (2 sep acc c cs)
  show ?case
  proof (cases "prefix sep (c # cs)")
    case True
    have a: "\<not> sublist sep (rev acc)"
    proof (clarsimp simp: sublist_def)
      fix ps ss assume e: "rev acc = ps @ sep @ ss"
      then have "rev acc @ c # cs = ps @ sep @ (ss @ c # cs)" by simp
      then have "length acc \<le> length ps" using 2(4) by blast
      moreover from e have "length acc = length ps + length sep + length ss"
        by (metis length_append length_rev add.assoc)
      ultimately show False using 2(3) by simp
    qed
    have "\<forall>r\<in>set (split_scan sep [] (drop (length sep) (c # cs))). \<not> sublist sep r"
      using 2(1) True 2(3) by simp
    with a True 2(3) show ?thesis by simp
  next
    case False
    have "\<forall>r\<in>set (split_scan sep (c # acc) cs). \<not> sublist sep r"
    proof (rule 2(2))
      show "\<not> (sep \<noteq> [] \<and> prefix sep (c # cs))" using False by simp
      show "sep \<noteq> []" by fact
      fix ps ss assume e: "rev (c # acc) @ cs = ps @ sep @ ss"
      then have e': "rev acc @ c # cs = ps @ sep @ ss" by simp
      then have l: "length acc \<le> length ps" using 2(4) by blast
      show "length (c # acc) \<le> length ps"
      proof (rule ccontr)
        assume "\<not> length (c # acc) \<le> length ps"
        with l have "length ps = length acc" by simp
        with e' have "c # cs = sep @ ss"
          by (metis append_eq_append_conv length_rev)
        with False show False by (simp add: prefix_def)
      qed
    qed
    with False show ?thesis by simp
  qed
qed

lemma js_split_empty_sep: "js_split s [] = map (\<lambda>ch. [ch]) s"
  by (simp add: js_split_def)

lemma js_split_no_sep: "sep \<noteq> [] \<Longrightarrow> r \<in> set (js_split s sep) \<Longrightarrow> \<not> sublist sep r"
  using split_scan_no_sep[of sep "[]" s] by (simp add: js_split_def)


lemmas store_defs = get_def put_def issue_def await_def resolveKey_def js_substr_def js_split_def
  first_elem_def or_default_def newline_def settled_def Let_def

lemmas demo_defs = demo_config_def hex_config_def one_object_world_def paged_world_def
  three_object_world_def empty_object_world_def marker_only_world_def late_marker_world_def
  target_config_def demo_decode_def hex_text_def hex_digit_def

text \<open>
  What \<open>splitObject\<close> resolves with when the fetch succeeds: nothing for an empty body,
  and otherwise the body split on the delimiter, which is the newline when the argument
  is omitted. The records, joined by the delimiter, give the body back in order; no
  record contains a non-empty delimiter, and the records for the empty delimiter are the
  characters of the body.
\<close>

lemma splitObject_splits:
  assumes "get c b key w = (Resolved body, w1)"
  shows "fst (splitObject c b key delim enc w) =
           Resolved (if body = [] then [] else js_split body (or_default delim newline))
       \<and> join_with (or_default delim newline)
            (if body = [] then [] else js_split body (or_default delim newline)) = body
       \<and> (or_default delim newline \<noteq> [] \<longrightarrow>
            (\<forall>r \<in> set (if body = [] then [] else js_split body (or_default delim newline)).
               \<not> sublist (or_default delim newline) r))
       \<and> (or_default delim newline = [] \<longrightarrow>
            (if body = [] then [] else js_split body (or_default delim newline))
              = map (\<lambda>ch. [ch]) body)"
  using assms
  by (auto simp: splitObject_def join_js_split js_split_empty_sep join_chars dest: js_split_no_sep)

text \<open>The encoding argument has no influence on what \<open>splitObject\<close> does.\<close>

lemma splitObject_encoding_unused:
  "splitObject c b key delim enc w = splitObject c b key delim enc' w"
  by (simp add: splitObject_def Let_def)

text \<open>
  Claim C8 does not hold of the code where it concerns the encoding. The object
  \<open>in/k3\<close> holds the two bytes of \<open>de\<close>. On an instance configured with the encoding
  \<open>hex\<close>, \<open>splitObject\<close> with the encoding omitted resolves with the one record
  \<open>6465\<close>, the body in \<open>hex\<close>, where the claim has UTF-8 and so the record \<open>de\<close>; on
  an instance with the encoding \<open>utf8\<close>, \<open>splitObject\<close> with the encoding \<open>hex\<close>
  resolves with \<open>de\<close>. The rest is as claimed: the newline is the delimiter when it is
  omitted, a delimiter that is given cuts the body where it occurs, the empty delimiter
  gives the characters, and an empty body resolves with no record at all.
\<close>

theorem splitObject_ignores_encoding:
  "fst (splitObject hex_config ''logs'' ''in/k3'' None None three_object_world)
     = Resolved [''6465'']
   \<and> fst (splitObject demo_config ''logs'' ''in/k3'' None (Some ''hex'') three_object_world)
     = Resolved [''de'']
   \<and> fst (splitObject demo_config ''logs'' ''in/k2'' None None three_object_world)
     = Resolved [''a'', ''b'', ''c'']
   \<and> fst (splitObject demo_config ''logs'' ''in/k2'' (Some ''b'') None three_object_world)
     = Resolved [''a'' @ newline, newline @ ''c'']
   \<and> fst (splitObject demo_config ''logs'' ''in/k3'' (Some '''') None three_object_world)
     = Resolved [''d'', ''e'']
   \<and> fst (splitObject demo_config ''logs'' ''in/empty'' None None empty_object_world)
     = Resolved []
   \<and> fst (splitObject demo_config ''logs'' ''in/empty'' (Some '''') None empty_object_world)
     = Resolved []"
  by (simp add: splitObject_def demo_defs store_defs)

section \<open>Properties of the working-set enumerator\<close>


















section \<open>The operations on concrete working sets\<close>

lemmas op_defs = forEach_def map_op_def map_entry_def map_continue_def reduce_def filter_op_def join_def list_def listObjects_def
  with_slash_def splitObject_def mapSplit_def eachSplit_def filterSplitObject_def map_output_def
  isSplit_def split_def finish_def delete_def deleteObjects_def copy_def checkResult_def
  reference_error_def final_promise_def final_world_def stored_def answered_def js_join_def


text \<open>
  Claim C1 does not hold of the code. The entry of \<open>map\<close> tests \<open>isSplit\<close> the wrong way
  round, so that with the delimiter a newline the first object of the working set goes
  through \<open>_mapObject\<close>: the user function \<open>x => x + '!'\<close> is applied once to the whole
  body \<open>a\nb\nc\<close> and the body written is \<open>a\nb\nc!\<close>, where the claim gives
  \<open>a!\nb!\nc!\<close>. With no delimiter the first object goes through \<open>_splitObjects\<close>: it
  is split on the newline, which is the default of \<open>splitObject\<close>, and joined by a comma,
  which is the default of \<open>join\<close>.
\<close>

theorem map_split_first_object_whole:
  "final_promise (map_op (split None demo_config) (Some append_bang) None 2 one_object_world)
     = Some (Resolved ())
   \<and> stored (map_op (split None demo_config) (Some append_bang) None 2 one_object_world)
        ''logs'' ''in/k1'' = Some (''a'' @ newline @ ''b'' @ newline @ ''c!'')
   \<and> ''a'' @ newline @ ''b'' @ newline @ ''c!'' \<noteq> ''a!'' @ newline @ ''b!'' @ newline @ ''c!''
   \<and> stored (map_op demo_config (Some append_bang) None 2 one_object_world)
        ''logs'' ''in/k1'' = Some ''a!,b!,c!''"
  by (simp add: op_defs store_defs demo_defs append_bang_def eval_nat_numeral)

text \<open>
  Claim C3 does not hold of the code in split mode. Over the bodies of lengths 3, 5 and
  2 the whole-object fold of \<open>(acc, body) => acc + body.length\<close> from 0 resolves with
  10, as claimed; with a delimiter configured the same call is rejected with the
  \<open>ReferenceError\<close> of the undeclared \<open>key\<close>, before any object is fetched.
\<close>

theorem reduce_split_rejects:
  "final_promise (reduce demo_config (Some add_length) 0 None 2 three_object_world)
     = Some (Resolved (Some 10))
   \<and> final_promise (reduce (split None demo_config) (Some add_length) 0 None 2 three_object_world)
     = Some (Rejected (JError ''ReferenceError'' ''key is not defined''))
   \<and> answered (reduce (split None demo_config) (Some add_length) 0 None 2 three_object_world)
     = [[ListObjects ''logs'' ''in/'' ''''], [ListObjects ''logs'' ''in/'' ''in/k3'']]"
  by (simp add: op_defs store_defs demo_defs add_length_def eval_nat_numeral)

text \<open>
  Claim C2 does not hold of the code in async mode. In synchronous mode the filter
  \<open>entry => entry != 'b'\<close> over the object \<open>a\nb\nc\<close> resolves and leaves \<open>a\nc\<close> under
  the source key. In async mode the same call is rejected with the \<open>ReferenceError\<close> of
  the undeclared \<open>promises\<close> after the object was fetched, the records are not written
  and the object keeps its body.
\<close>

theorem filter_split_async_rejects:
  "final_promise (filter_op (split None demo_config) (Some drop_b) (Some False) 2 one_object_world)
     = Some (Resolved ())
   \<and> stored (filter_op (split None demo_config) (Some drop_b) (Some False) 2 one_object_world)
        ''logs'' ''in/k1'' = Some (''a'' @ newline @ ''c'')
   \<and> final_promise (filter_op (split None demo_config) (Some drop_b) (Some True) 2 one_object_world)
     = Some (Rejected (JError ''ReferenceError'' ''promises is not defined''))
   \<and> stored (filter_op (split None demo_config) (Some drop_b) (Some True) 2 one_object_world)
        ''logs'' ''in/k1'' = Some (''a'' @ newline @ ''b'' @ newline @ ''c'')
   \<and> answered (filter_op (split None demo_config) (Some drop_b) (Some True) 2 one_object_world)
     = [[ListObjects ''logs'' ''in/'' ''''], [ListObjects ''logs'' ''in/'' ''in/k1''],
        [GetObject ''logs'' ''in/k1'']]"
  by (simp add: op_defs store_defs demo_defs drop_b_def eval_nat_numeral)

text \<open>
  Claim C10 does not hold of the code in async mode. Over three objects the synchronous
  split filter that keeps every record makes three writes, one per object and each with
  the body the object already had; the async one makes none.
\<close>

theorem filter_split_async_writes_nothing:
  "filter is_put
     (concat (answered (filter_op (split None demo_config) (Some keep_all) (Some False) 2
        three_object_world)))
     = [PutObject ''logs'' ''in/k1'' (''x'' @ newline @ ''y''),
        PutObject ''logs'' ''in/k2'' (''a'' @ newline @ ''b'' @ newline @ ''c''),
        PutObject ''logs'' ''in/k3'' ''de'']
   \<and> filter is_put
     (concat (answered (filter_op (split None demo_config) (Some keep_all) (Some True) 2
        three_object_world)))
     = []"
  by (simp add: op_defs store_defs demo_defs keep_all_def eval_nat_numeral)

section \<open>The iterators over the keys\<close>

lemma get_plain:
  "plain_bucket c \<Longrightarrow> get c (bucket c) k w = (fetched c w k, issue (GetObject (bucket c) k) w)"
  by (simp add: plain_bucket_def fetched_def get_def resolveKey_def js_indexOf_zero_iff Let_def
      split: option.splits)

lemma fetched_objects:
  assumes "objects w' = objects w" and "decode w' = decode w"
  shows "fetched c w' k = fetched c w k"
  by (simp add: fetched_def get_def Let_def assms split: option.splits)

lemma objects_answer [simp]: "objects (answer r w) = objects w"
  by (simp add: answer_def await_def issue_def)

lemma listing_answer [simp]: "listing (answer r w) = listing w"
  by (simp add: answer_def await_def issue_def)

lemma decode_answer [simp]: "decode (answer r w) = decode w"
  by (simp add: answer_def await_def issue_def)

lemma in_flight_answer [simp]: "in_flight (answer r w) = []"
  by (simp add: answer_def await_def issue_def)

lemma history_answer [simp]: "in_flight w = [] \<Longrightarrow> history (answer r w) = history w @ [[r]]"
  by (simp add: answer_def await_def issue_def)

lemma fetched_answer [simp]: "fetched c (answer r w) k = fetched c w k"
  by (rule fetched_objects) simp_all

lemma splitObject_plain:
  "plain_bucket c \<Longrightarrow>
   splitObject c (bucket c) k d e w =
     ((case fetched c w k of
         Rejected err \<Rightarrow> Rejected err
       | Resolved body \<Rightarrow> Resolved (if body = [] then [] else js_split body (or_default d newline))),
      answer (GetObject (bucket c) k) w)"
  by (simp add: splitObject_def get_plain answer_def Let_def split: promise.splits)

lemma records_plain:
  "plain_bucket c \<Longrightarrow>
   splitObject c (bucket c) k (delimiter c) (Some (encoding c)) w =
     (records c w k, answer (GetObject (bucket c) k) w)"
  by (simp add: records_def splitObject_plain)

lemma eachObject_append:
  "eachObject c f a (ks1 @ ks2) w =
     (case eachObject c f a ks1 w of
        (Completed, w2) \<Rightarrow> eachObject c f a ks2 w2
      | (Failed e, w2) \<Rightarrow> (Failed e, w2))"
  by (induction ks1 arbitrary: w) (simp_all split: prod.splits promise.splits ufres.splits)

lemma eachObject_throws:
  assumes "plain_bucket c" and "fetched c w k = Resolved body" and "f body = Throws e"
  shows "eachObject c f a (k # ks) w = (Failed e, answer (GetObject (bucket c) k) w)"
  using assms by (simp add: get_plain answer_def)

lemma forEach_splitObjects_append:
  "forEach_splitObjects c f a (ks1 @ ks2) w =
     (case forEach_splitObjects c f a ks1 w of
        (Completed, w2) \<Rightarrow> forEach_splitObjects c f a ks2 w2
      | (Failed e, w2) \<Rightarrow> (Failed e, w2))"
  by (induction ks1 arbitrary: w) (simp_all split: prod.splits promise.splits)

lemma forEach_splitObjects_throws:
  assumes "plain_bucket c" and "records c w k = Resolved entries"
    and "eachSplit f a entries = Rejected e"
  shows "forEach_splitObjects c f a (k # ks) w = (Failed e, answer (GetObject (bucket c) k) w)"
  using assms by (simp add: records_plain)

lemma mapObject_step:
  "mapObject c f a (k # ks) w =
     (case mapObject c f a [k] w of
        (Completed, w2) \<Rightarrow> map_continue c f a ks w2
      | (Failed e, w2) \<Rightarrow> (Failed e, w2))"
  by (simp add: map_continue_def split: prod.splits promise.splits ufres.splits)

lemma map_splitObjects_step:
  "map_splitObjects c f a (k # ks) w =
     (case map_splitObjects c f a [k] w of
        (Completed, w2) \<Rightarrow> map_continue c f a ks w2
      | (Failed e, w2) \<Rightarrow> (Failed e, w2))"
  by (simp add: map_continue_def split: prod.splits promise.splits ufres.splits)

lemma map_continue_Nil [simp]: "map_continue c f a [] w = (Completed, w)"
  by (simp add: map_continue_def)

lemma map_continue_step:
  "map_continue c f a (k # ks) w =
     (case map_continue c f a [k] w of
        (Completed, w2) \<Rightarrow> map_continue c f a ks w2
      | (Failed e, w2) \<Rightarrow> (Failed e, w2))"
  unfolding map_continue_def [of c f a "k # ks"] map_continue_def [of c f a "[k]"]
  using mapObject_step [of c f a k ks w] map_splitObjects_step [of c f a k ks w]
  by simp

lemma map_continue_append:
  "map_continue c f a (ks1 @ ks2) w =
     (case map_continue c f a ks1 w of
        (Completed, w2) \<Rightarrow> map_continue c f a ks2 w2
      | (Failed e, w2) \<Rightarrow> (Failed e, w2))"
proof (induction ks1 arbitrary: w)
  case Nil
  show ?case by simp
next
  case (Cons k ks1)
  show ?case
    by (subst append_Cons, subst map_continue_step, subst (2) map_continue_step)
       (simp add: Cons.IH split: prod.splits outcome.splits)
qed

lemma mapObject_throws:
  assumes "plain_bucket c" and "fetched c w k = Resolved body" and "f body = Throws e"
  shows "mapObject c f a (k # ks) w = (Failed e, answer (GetObject (bucket c) k) w)"
  using assms by (simp add: get_plain answer_def)

lemma map_splitObjects_throws:
  assumes "plain_bucket c" and "records c w k = Resolved entries"
    and "mapSplit f a entries = Rejected e"
  shows "map_splitObjects c f a (k # ks) w = (Failed e, answer (GetObject (bucket c) k) w)"
  using assms by (simp add: records_plain)

lemma reduceObjects_append:
  "reduceObjects c f a (ks1 @ ks2) v w =
     (case reduceObjects c f a ks1 v w of
        (Completed, v2, w2) \<Rightarrow> reduceObjects c f a ks2 v2 w2
      | (Failed e, v2, w2) \<Rightarrow> (Failed e, v2, w2))"
  by (induction ks1 arbitrary: v w) (simp_all split: prod.splits promise.splits ufres.splits)

lemma reduceObjects_throws:
  assumes "plain_bucket c" and "fetched c w k = Resolved body" and "f v body k = Throws e"
  shows "reduceObjects c f a (k # ks) v w = (Failed e, v, answer (GetObject (bucket c) k) w)"
  using assms by (simp add: get_plain answer_def)

lemma filter_splitObjects_append:
  "filter_splitObjects c f a (ks1 @ ks2) w =
     (case filter_splitObjects c f a ks1 w of
        (Completed, w2) \<Rightarrow> filter_splitObjects c f a ks2 w2
      | (Failed e, w2) \<Rightarrow> (Failed e, w2))"
  by (induction ks1 arbitrary: w) (simp_all add: Let_def split: prod.splits promise.splits)

lemma filter_splitObjects_throws:
  assumes "plain_bucket c" and "records c w k = Resolved entries"
    and "filterSplitObject f a entries = Rejected e"
  shows "filter_splitObjects c f a (k # ks) w = (Failed e, answer (GetObject (bucket c) k) w)"
  using assms by (simp add: records_plain)

lemma fetch_each_Nil [simp]: "fetch_each c [] w = w"
  by (simp add: fetch_each_def)

lemma fetch_each_Cons [simp]:
  "fetch_each c (k # ks) w = fetch_each c ks (answer (GetObject (bucket c) k) w)"
  by (simp add: fetch_each_def)

lemma filterObjects_stops:
  assumes "plain_bucket c"
    and "\<forall>k' \<in> set ks1. \<exists>body b. fetched c w k' = Resolved body \<and> f body = Returns (JBool b)"
    and "fetched c w k = Resolved body"
    and "f body = Throws e \<or> (\<exists>r. f body = Returns r \<and> checkResult r = Threw e)"
  shows "filterObjects c f a (ks1 @ k # ks2) keep remove w = (Failed e, fetch_each c (ks1 @ [k]) w)"
  using assms
proof (induction ks1 arbitrary: keep remove w)
  case Nil
  then show ?case by (auto simp: get_plain answer_def)
next
  case (Cons k1 ks1)
  from Cons.prems(2) obtain body1 b1
    where b1: "fetched c w k1 = Resolved body1" "f body1 = Returns (JBool b1)"
    by auto
  let ?w1 = "answer (GetObject (bucket c) k1) w"
  have ih: "filterObjects c f a (ks1 @ k # ks2) keep' remove' ?w1 = (Failed e, fetch_each c (ks1 @ [k]) ?w1)"
    for keep' remove'
    using Cons.prems by (intro Cons.IH) simp_all
  show ?case
    using Cons.prems(1) b1 ih
    by (simp add: get_plain checkResult_def answer_def [symmetric])
qed

lemma map_entry_append:
  assumes "ks1 \<noteq> []"
  shows "map_entry c f a (ks1 @ ks2) w =
     (case map_entry c f a ks1 w of
        (Completed, w2) \<Rightarrow> map_continue c f a ks2 w2
      | (Failed e, w2) \<Rightarrow> (Failed e, w2))"
proof -
  from assms obtain k ks where ks1: "ks1 = k # ks" by (cases ks1) auto
  have m: "mapObject c f a (k # ks @ ks2) w =
     (case mapObject c f a (k # ks) w of
        (Completed, w2) \<Rightarrow> map_continue c f a ks2 w2
      | (Failed e, w2) \<Rightarrow> (Failed e, w2))"
    by (subst mapObject_step, subst (2) mapObject_step)
       (simp add: map_continue_append split: prod.splits outcome.splits)
  have s: "map_splitObjects c f a (k # ks @ ks2) w =
     (case map_splitObjects c f a (k # ks) w of
        (Completed, w2) \<Rightarrow> map_continue c f a ks2 w2
      | (Failed e, w2) \<Rightarrow> (Failed e, w2))"
    by (subst map_splitObjects_step, subst (2) map_splitObjects_step)
       (simp add: map_continue_append split: prod.splits outcome.splits)
  show ?thesis
    unfolding ks1 map_entry_def using m s by simp
qed

lemma forEach_aborts:
  assumes "plain_bucket c" and "list c n w = Some (Resolved (ks1 @ k # ks2), w1)" and "truthy e"
    and "delimiter c = None" and "eachObject c f (or_default ia False) ks1 w1 = (Completed, w2)"
    and "fetched c w2 k = Resolved body" and "f body = Throws e"
  shows "aborts_with (forEach c (Some f) ia n w) e c k w2"
proof -
  have "eachObject c f (or_default ia False) (k # ks2) w2
          = (Failed e, answer (GetObject (bucket c) k) w2)"
    using assms(1,6,7) by (rule eachObject_throws)
  then have "eachObject c f (or_default ia False) (ks1 @ k # ks2) w1
          = (Failed e, answer (GetObject (bucket c) k) w2)"
    using assms(5) by (simp add: eachObject_append del: eachObject.simps)
  then show ?thesis
    using assms(2,3,4) by (simp add: aborts_with_def forEach_def)
qed

lemma forEach_split_aborts:
  assumes "plain_bucket c" and "list c n w = Some (Resolved (ks1 @ k # ks2), w1)" and "truthy e"
    and "delimiter c \<noteq> None"
    and "forEach_splitObjects c f (or_default ia False) ks1 w1 = (Completed, w2)"
    and "records c w2 k = Resolved entries" and "eachSplit f (or_default ia False) entries = Rejected e"
  shows "aborts_with (forEach c (Some f) ia n w) e c k w2"
proof -
  have "forEach_splitObjects c f (or_default ia False) (k # ks2) w2
          = (Failed e, answer (GetObject (bucket c) k) w2)"
    using assms(1,6,7) by (rule forEach_splitObjects_throws)
  then have "forEach_splitObjects c f (or_default ia False) (ks1 @ k # ks2) w1
          = (Failed e, answer (GetObject (bucket c) k) w2)"
    using assms(5) by (simp add: forEach_splitObjects_append del: forEach_splitObjects.simps)
  then show ?thesis
    using assms(2,3,4) by (auto simp: aborts_with_def forEach_def)
qed

lemma map_aborts:
  assumes "plain_bucket c" and "list c n w = Some (Resolved (ks1 @ k # ks2), w1)" and "truthy e"
    and "ks1 \<noteq> []" and "delimiter c = None"
    and "map_entry c f (or_default ia False) ks1 w1 = (Completed, w2)"
    and "fetched c w2 k = Resolved body" and "f body = Throws e"
  shows "aborts_with (map_op c (Some f) ia n w) e c k w2"
proof -
  have "mapObject c f (or_default ia False) (k # ks2) w2
          = (Failed e, answer (GetObject (bucket c) k) w2)"
    using assms(1,7,8) by (rule mapObject_throws)
  then have "map_continue c f (or_default ia False) (k # ks2) w2
          = (Failed e, answer (GetObject (bucket c) k) w2)"
    using assms(5) by (simp add: map_continue_def isSplit_def)
  then have "map_entry c f (or_default ia False) (ks1 @ k # ks2) w1
          = (Failed e, answer (GetObject (bucket c) k) w2)"
    using assms(4,6) by (simp add: map_entry_append)
  then show ?thesis
    using assms(2,3) by (simp add: aborts_with_def map_op_def)
qed

lemma map_split_aborts:
  assumes "plain_bucket c" and "list c n w = Some (Resolved (ks1 @ k # ks2), w1)" and "truthy e"
    and "ks1 \<noteq> []" and "delimiter c \<noteq> None"
    and "map_entry c f (or_default ia False) ks1 w1 = (Completed, w2)"
    and "records c w2 k = Resolved entries" and "mapSplit f (or_default ia False) entries = Rejected e"
  shows "aborts_with (map_op c (Some f) ia n w) e c k w2"
proof -
  have "map_splitObjects c f (or_default ia False) (k # ks2) w2
          = (Failed e, answer (GetObject (bucket c) k) w2)"
    using assms(1,7,8) by (rule map_splitObjects_throws)
  then have "map_continue c f (or_default ia False) (k # ks2) w2
          = (Failed e, answer (GetObject (bucket c) k) w2)"
    using assms(5) by (simp add: map_continue_def isSplit_def)
  then have "map_entry c f (or_default ia False) (ks1 @ k # ks2) w1
          = (Failed e, answer (GetObject (bucket c) k) w2)"
    using assms(4,6) by (simp add: map_entry_append)
  then show ?thesis
    using assms(2,3) by (simp add: aborts_with_def map_op_def)
qed

lemma reduce_aborts:
  assumes "plain_bucket c" and "list c n w = Some (Resolved (ks1 @ k # ks2), w1)" and "truthy e"
    and "delimiter c = None"
    and "reduceObjects c f (or_default ia False) ks1 v0 w1 = (Completed, v, w2)"
    and "fetched c w2 k = Resolved body" and "f v body k = Throws e"
  shows "aborts_with (reduce c (Some f) v0 ia n w) e c k w2"
proof -
  have "reduceObjects c f (or_default ia False) (k # ks2) v w2
          = (Failed e, v, answer (GetObject (bucket c) k) w2)"
    using assms(1,6,7) by (rule reduceObjects_throws)
  then have "reduceObjects c f (or_default ia False) (ks1 @ k # ks2) v0 w1
          = (Failed e, v, answer (GetObject (bucket c) k) w2)"
    using assms(5) by (simp add: reduceObjects_append del: reduceObjects.simps)
  then show ?thesis
    using assms(2,3,4) by (simp add: aborts_with_def reduce_def)
qed

lemma fetch_each_snoc: "fetch_each c (ks @ [k]) w = answer (GetObject (bucket c) k) (fetch_each c ks w)"
  by (simp add: fetch_each_def)

lemma filter_aborts:
  assumes "plain_bucket c" and "list c n w = Some (Resolved (ks1 @ k # ks2), w1)" and "truthy e"
    and "delimiter c = None"
    and "\<forall>k' \<in> set ks1. \<exists>body b. fetched c w1 k' = Resolved body \<and> f body = Returns (JBool b)"
    and "fetched c w1 k = Resolved body" and "f body = Throws e"
  shows "aborts_with (filter_op c (Some f) ia n w) e c k (fetch_each c ks1 w1)"
proof -
  have "filterObjects c f (or_default ia False) (ks1 @ k # ks2) [] [] w1
          = (Failed e, fetch_each c (ks1 @ [k]) w1)"
    using assms(1,5,6,7) by (intro filterObjects_stops) auto
  then show ?thesis
    using assms(2,3,4) by (simp add: aborts_with_def filter_op_def fetch_each_snoc)
qed

lemma filter_split_aborts:
  assumes "plain_bucket c" and "list c n w = Some (Resolved (ks1 @ k # ks2), w1)" and "truthy e"
    and "delimiter c \<noteq> None" and "\<not> or_default ia False"
    and "filter_splitObjects c f False ks1 w1 = (Completed, w2)"
    and "records c w2 k = Resolved entries" and "filter_sync f entries = Inl e"
  shows "aborts_with (filter_op c (Some f) ia n w) e c k w2"
proof -
  have "filterSplitObject f False entries = Rejected e"
    using assms(8) by (simp add: filterSplitObject_def)
  with assms(1,7) have "filter_splitObjects c f False (k # ks2) w2
          = (Failed e, answer (GetObject (bucket c) k) w2)"
    by (rule filter_splitObjects_throws)
  then have "filter_splitObjects c f False (ks1 @ k # ks2) w1
          = (Failed e, answer (GetObject (bucket c) k) w2)"
    using assms(6) by (simp add: filter_splitObjects_append del: filter_splitObjects.simps)
  then show ?thesis
    using assms(2,3,4,5) by (auto simp: aborts_with_def filter_op_def)
qed

lemmas eval_defs = op_defs store_defs demo_defs plain_bucket_def fetched_def records_def answer_def
  fetch_each_def aborts_with_def listed_def boom_def has_b_def each_boom_def map_boom_def
  reduce_boom_def filter_boom_def throw_zero_def yes_on_b_def thrown_def FILTER_RESULT_ERROR_def
  eval_nat_numeral

section \<open>A failing user function\<close>

text \<open>
  Claim C7, as the specification states it, fails for an error value that is falsy. The
  internal callbacks are node-style, \<open>err => { if (err) fail(err); else success(); }\<close>,
  so that a user function that throws 0 on the first key stops the iteration (only the
  first object is fetched) and the promise of \<open>forEach\<close> is fulfilled, not rejected.
\<close>

theorem falsy_error_counterexample:
  "final_promise (forEach demo_config (Some throw_zero) None 2 three_object_world)
     = Some (Resolved ())
   \<and> answered (forEach demo_config (Some throw_zero) None 2 three_object_world)
     = [[ListObjects ''logs'' ''in/'' ''''], [ListObjects ''logs'' ''in/'' ''in/k3''],
        [GetObject ''logs'' ''in/k1'']]"
  by (simp add: eval_defs)

text \<open>
  Claim C7, amended: the value thrown or rejected is truthy, and the user function has
  returned on the keys before \<open>k\<close> (the iteration over them, from the world \<open>w1\<close> that
  \<open>list\<close> left, completes in the world \<open>w2\<close>). Then the promise of the operation is
  rejected with that value, unchanged, and the world it ends in is \<open>w2\<close> with the fetch
  of the key \<open>k\<close> and nothing after it, whatever keys \<open>ks2\<close> follow: they are neither
  fetched nor written. This holds of \<open>forEach\<close> in both modes (in split mode the error
  is the first one of the records of the key), of \<open>map\<close> in both modes from the second
  key on, of \<open>reduce\<close> and \<open>filter\<close> in whole-object mode, and of the synchronous
  \<open>filter\<close> in split mode.
\<close>

theorem user_error_aborts:
  assumes "plain_bucket c" and "list c n w = Some (Resolved (ks1 @ k # ks2), w1)" and "truthy e"
  shows
    "(delimiter c = None \<and> eachObject c fe (or_default ia False) ks1 w1 = (Completed, w2)
        \<and> fetched c w2 k = Resolved body \<and> fe body = Throws e
      \<longrightarrow> aborts_with (forEach c (Some fe) ia n w) e c k w2)
   \<and> (delimiter c \<noteq> None \<and> forEach_splitObjects c fe (or_default ia False) ks1 w1 = (Completed, w2)
        \<and> records c w2 k = Resolved entries \<and> eachSplit fe (or_default ia False) entries = Rejected e
      \<longrightarrow> aborts_with (forEach c (Some fe) ia n w) e c k w2)
   \<and> (ks1 \<noteq> [] \<and> delimiter c = None \<and> map_entry c fm (or_default ia False) ks1 w1 = (Completed, wm)
        \<and> fetched c wm k = Resolved body \<and> fm body = Throws e
      \<longrightarrow> aborts_with (map_op c (Some fm) ia n w) e c k wm)
   \<and> (ks1 \<noteq> [] \<and> delimiter c \<noteq> None \<and> map_entry c fm (or_default ia False) ks1 w1 = (Completed, wm)
        \<and> records c wm k = Resolved entries \<and> mapSplit fm (or_default ia False) entries = Rejected e
      \<longrightarrow> aborts_with (map_op c (Some fm) ia n w) e c k wm)
   \<and> (delimiter c = None \<and> reduceObjects c fr (or_default ia False) ks1 v0 w1 = (Completed, v, w2)
        \<and> fetched c w2 k = Resolved body \<and> fr v body k = Throws e
      \<longrightarrow> aborts_with (reduce c (Some fr) v0 ia n w) e c k w2)
   \<and> (delimiter c = None
        \<and> (\<forall>k' \<in> set ks1. \<exists>body b. fetched c w1 k' = Resolved body \<and> ff body = Returns (JBool b))
        \<and> fetched c w1 k = Resolved body \<and> ff body = Throws e
      \<longrightarrow> aborts_with (filter_op c (Some ff) ia n w) e c k (fetch_each c ks1 w1))
   \<and> (delimiter c \<noteq> None \<and> \<not> or_default ia False
        \<and> filter_splitObjects c ff False ks1 w1 = (Completed, wq)
        \<and> records c wq k = Resolved entries \<and> filter_sync ff entries = Inl e
      \<longrightarrow> aborts_with (filter_op c (Some ff) ia n w) e c k wq)"
proof -
  note a = assms
  have "aborts_with (forEach c (Some fe) ia n w) e c k w2"
    if "delimiter c = None" and "eachObject c fe (or_default ia False) ks1 w1 = (Completed, w2)"
      and "fetched c w2 k = Resolved body" and "fe body = Throws e"
    using a that by (rule forEach_aborts)
  moreover have "aborts_with (forEach c (Some fe) ia n w) e c k w2"
    if "delimiter c \<noteq> None"
      and "forEach_splitObjects c fe (or_default ia False) ks1 w1 = (Completed, w2)"
      and "records c w2 k = Resolved entries"
      and "eachSplit fe (or_default ia False) entries = Rejected e"
    using a that by (rule forEach_split_aborts)
  moreover have "aborts_with (map_op c (Some fm) ia n w) e c k wm"
    if "ks1 \<noteq> []" and "delimiter c = None"
      and "map_entry c fm (or_default ia False) ks1 w1 = (Completed, wm)"
      and "fetched c wm k = Resolved body" and "fm body = Throws e"
    using a that by (rule map_aborts)
  moreover have "aborts_with (map_op c (Some fm) ia n w) e c k wm"
    if "ks1 \<noteq> []" and "delimiter c \<noteq> None"
      and "map_entry c fm (or_default ia False) ks1 w1 = (Completed, wm)"
      and "records c wm k = Resolved entries"
      and "mapSplit fm (or_default ia False) entries = Rejected e"
    using a that by (rule map_split_aborts)
  moreover have "aborts_with (reduce c (Some fr) v0 ia n w) e c k w2"
    if "delimiter c = None"
      and "reduceObjects c fr (or_default ia False) ks1 v0 w1 = (Completed, v, w2)"
      and "fetched c w2 k = Resolved body" and "fr v body k = Throws e"
    using a that by (rule reduce_aborts)
  moreover have "aborts_with (filter_op c (Some ff) ia n w) e c k (fetch_each c ks1 w1)"
    if "delimiter c = None"
      and "\<forall>k' \<in> set ks1. \<exists>body b. fetched c w1 k' = Resolved body \<and> ff body = Returns (JBool b)"
      and "fetched c w1 k = Resolved body" and "ff body = Throws e"
    using a that by (rule filter_aborts)
  moreover have "aborts_with (filter_op c (Some ff) ia n w) e c k wq"
    if "delimiter c \<noteq> None" and "\<not> or_default ia False"
      and "filter_splitObjects c ff False ks1 w1 = (Completed, wq)"
      and "records c wq k = Resolved entries" and "filter_sync ff entries = Inl e"
    using a that by (rule filter_split_aborts)
  ultimately show ?thesis by (intro conjI impI) (elim conjE, assumption?)+
qed

theorem user_error_aborts_witness:
  "plain_bucket demo_config \<and> plain_bucket (split None demo_config) \<and> truthy boom
   \<and> final_promise (forEach demo_config (Some each_boom) None 2 three_object_world)
       = Some (Rejected boom)
   \<and> answered (forEach demo_config (Some each_boom) None 2 three_object_world)
       = [[ListObjects ''logs'' ''in/'' ''''], [ListObjects ''logs'' ''in/'' ''in/k3''],
          [GetObject ''logs'' ''in/k1''], [GetObject ''logs'' ''in/k2'']]
   \<and> final_promise (map_op demo_config (Some map_boom) None 2 three_object_world)
       = Some (Rejected boom)
   \<and> final_promise (reduce demo_config (Some reduce_boom) 0 None 2 three_object_world)
       = Some (Rejected boom)
   \<and> final_promise (filter_op demo_config (Some filter_boom) None 2 three_object_world)
       = Some (Rejected boom)
   \<and> final_promise (forEach (split None demo_config) (Some each_boom) None 2 three_object_world)
       = Some (Rejected boom)
   \<and> final_promise (map_op (split None demo_config) (Some map_boom) None 2 three_object_world)
       = Some (Rejected boom)
   \<and> final_promise (filter_op (split None demo_config) (Some filter_boom) None 2 three_object_world)
       = Some (Rejected boom)"
proof -
  let ?c = demo_config and ?s = "split None demo_config" and ?w = three_object_world
  let ?body = "''a'' @ newline @ ''b'' @ newline @ ''c''"
  let ?w1 = "listed ?c 2 ?w"
  let ?w2 = "snd (eachObject ?c each_boom False [''in/k1''] ?w1)"
  let ?wm = "snd (map_entry ?c map_boom False [''in/k1''] ?w1)"
  let ?v1 = "listed ?s 2 ?w"
  let ?v2 = "snd (forEach_splitObjects ?s each_boom False [''in/k1''] ?v1)"
  let ?vm = "snd (map_entry ?s map_boom False [''in/k1''] ?v1)"
  let ?vq = "snd (filter_splitObjects ?s filter_boom False [''in/k1''] ?v1)"
  have p: "plain_bucket ?c" "plain_bucket ?s" and t: "truthy boom"
    by (simp_all add: eval_defs)
  have l: "list ?c 2 ?w = Some (Resolved ([''in/k1''] @ ''in/k2'' # [''in/k3'']), ?w1)"
    and ls: "list ?s 2 ?w = Some (Resolved ([''in/k1''] @ ''in/k2'' # [''in/k3'']), ?v1)"
    by (simp_all add: eval_defs)
  have d: "delimiter ?c = None" "delimiter ?s \<noteq> None" "or_default None False = False"
    by (simp_all add: eval_defs)
  note whole = user_error_aborts [OF p(1) l t, of each_boom None ?w2 ?body "[]" map_boom ?wm
      reduce_boom 0 3 filter_boom ?w1]
  note splitm = user_error_aborts [OF p(2) ls t, of each_boom None ?v2 "[]" "[''a'', ''b'', ''c'']"
      map_boom ?vm reduce_boom 0 0 filter_boom ?vq]
  have e1: "eachObject ?c each_boom False [''in/k1''] ?w1 = (Completed, ?w2)"
    "fetched ?c ?w2 ''in/k2'' = Resolved ?body" "each_boom ?body = Throws boom"
    by (simp_all add: eval_defs)
  have e2: "map_entry ?c map_boom False [''in/k1''] ?w1 = (Completed, ?wm)"
    "fetched ?c ?wm ''in/k2'' = Resolved ?body" "map_boom ?body = Throws boom"
    by (simp_all add: eval_defs)
  have e3: "reduceObjects ?c reduce_boom False [''in/k1''] 0 ?w1 = (Completed, 3, ?w2)"
    "reduce_boom 3 ?body ''in/k2'' = Throws boom"
    by (simp_all add: eval_defs)
  have e4: "\<forall>k' \<in> set [''in/k1'']. \<exists>body b. fetched ?c ?w1 k' = Resolved body
               \<and> filter_boom body = Returns (JBool b)"
    "fetched ?c ?w1 ''in/k2'' = Resolved ?body" "filter_boom ?body = Throws boom"
    by (auto simp: eval_defs)
  have e5: "forEach_splitObjects ?s each_boom False [''in/k1''] ?v1 = (Completed, ?v2)"
    "records ?s ?v2 ''in/k2'' = Resolved [''a'', ''b'', ''c'']"
    "eachSplit each_boom False [''a'', ''b'', ''c''] = Rejected boom"
    by (simp_all add: eval_defs)
  have e6: "map_entry ?s map_boom False [''in/k1''] ?v1 = (Completed, ?vm)"
    "records ?s ?vm ''in/k2'' = Resolved [''a'', ''b'', ''c'']"
    "mapSplit map_boom False [''a'', ''b'', ''c''] = Rejected boom"
    by (simp_all add: eval_defs)
  have e7: "filter_splitObjects ?s filter_boom False [''in/k1''] ?v1 = (Completed, ?vq)"
    "records ?s ?vq ''in/k2'' = Resolved [''a'', ''b'', ''c'']"
    "filter_sync filter_boom [''a'', ''b'', ''c''] = Inl boom"
    by (simp_all add: eval_defs)
  have a1: "aborts_with (forEach ?c (Some each_boom) None 2 ?w) boom ?c ''in/k2'' ?w2"
    using whole d e1 by simp
  have a2: "aborts_with (map_op ?c (Some map_boom) None 2 ?w) boom ?c ''in/k2'' ?wm"
    using whole d e2 by simp
  have a3: "aborts_with (reduce ?c (Some reduce_boom) 0 None 2 ?w) boom ?c ''in/k2'' ?w2"
    using whole d e1 e3 by simp
  have a4: "aborts_with (filter_op ?c (Some filter_boom) None 2 ?w) boom ?c ''in/k2''
              (fetch_each ?c [''in/k1''] ?w1)"
    using whole d e4 by simp
  have a5: "aborts_with (forEach ?s (Some each_boom) None 2 ?w) boom ?s ''in/k2'' ?v2"
    using splitm d e5 by simp
  have a6: "aborts_with (map_op ?s (Some map_boom) None 2 ?w) boom ?s ''in/k2'' ?vm"
    using splitm d e6 by simp
  have a7: "aborts_with (filter_op ?s (Some filter_boom) None 2 ?w) boom ?s ''in/k2'' ?vq"
    using splitm d e7 by simp
  have h: "history (answer (GetObject (bucket ?c) ''in/k2'') ?w2)
       = [[ListObjects ''logs'' ''in/'' ''''], [ListObjects ''logs'' ''in/'' ''in/k3''],
          [GetObject ''logs'' ''in/k1''], [GetObject ''logs'' ''in/k2'']]"
    by (simp add: eval_defs)
  show ?thesis
    using p t a1 a2 a3 a4 a5 a6 a7 h
    by (simp add: aborts_with_def final_promise_def answered_def final_world_def)
qed

section \<open>A filter function that does not return a boolean\<close>

lemma objects_fetch_each [simp]: "objects (fetch_each c ks w) = objects w"
  by (induction ks arbitrary: w) simp_all

lemma history_fetch_each:
  "in_flight w = [] \<Longrightarrow>
   history (fetch_each c ks w) = history w @ map (\<lambda>k. [GetObject (bucket c) k]) ks"
  by (induction ks arbitrary: w) simp_all

lemma checkResult_non_boolean: "\<not> is_boolean r \<Longrightarrow> checkResult r = Threw FILTER_RESULT_ERROR"
  by (simp add: checkResult_def FILTER_RESULT_ERROR_def)

text \<open>
  Claim C4, as the specification states it, fails: the type error is not thrown by the
  call of \<open>filter\<close>. The function is first called in the \<open>then\<close> callback of a fetch,
  where the throw of \<open>checkResult\<close> rejects the promise of \<open>filter\<close>. Here the function
  returns \<open>true\<close> on the first object and the string \<open>yes\<close> on the second.
\<close>

theorem filter_type_error_is_a_rejection:
  "thrown (filter_op demo_config (Some yes_on_b) None 2 three_object_world) = None
   \<and> final_promise (filter_op demo_config (Some yes_on_b) None 2 three_object_world)
       = Some (Rejected (JError ''TypeError'' ''Filter function must return a boolean''))"
  by (simp add: eval_defs)

text \<open>
  In split mode the result of the function is never checked: \<open>entries.filter(func)\<close>
  takes any truthy result for \<open>true\<close>, and the object is written.
\<close>

lemma filter_split_accepts_non_boolean:
  "final_promise (filter_op (split None demo_config) (Some yes_on_b) None 2 one_object_world)
       = Some (Resolved ())
   \<and> answered (filter_op (split None demo_config) (Some yes_on_b) None 2 one_object_world)
       = [[ListObjects ''logs'' ''in/'' ''''], [ListObjects ''logs'' ''in/'' ''in/k1''],
          [GetObject ''logs'' ''in/k1''],
          [PutObject ''logs'' ''in/k1'' (''a'' @ newline @ ''b'' @ newline @ ''c'')]]"
  by (simp add: eval_defs)

text \<open>
  Claim C4, amended: in whole-object mode, synchronous or async, when the function has
  returned booleans on the keys before \<open>k\<close> and returns a value that is not a boolean on
  the object of \<open>k\<close>, the call of \<open>filter\<close> does not throw; the promise it returns is
  rejected with the type error; the store has been asked for the objects up to \<open>k\<close> and
  for nothing else, so that no object was copied or deleted and every body is as the
  listing left it.
\<close>

theorem filter_non_boolean_rejects:
  assumes "plain_bucket c" and "list c n w = Some (Resolved (ks1 @ k # ks2), w1)"
    and "in_flight w1 = []" and "delimiter c = None"
    and "\<forall>k' \<in> set ks1. \<exists>body b. fetched c w1 k' = Resolved body \<and> f body = Returns (JBool b)"
    and "fetched c w1 k = Resolved body" and "f body = Returns r" and "\<not> is_boolean r"
  shows "thrown (filter_op c (Some f) ia n w) = None
       \<and> final_promise (filter_op c (Some f) ia n w) = Some (Rejected FILTER_RESULT_ERROR)
       \<and> answered (filter_op c (Some f) ia n w)
           = history w1 @ map (\<lambda>k. [GetObject (bucket c) k]) (ks1 @ [k])
       \<and> (\<forall>b' k'. stored (filter_op c (Some f) ia n w) b' k' = objects w1 (b', k'))"
proof -
  have "filterObjects c f (or_default ia False) (ks1 @ k # ks2) [] [] w1
          = (Failed FILTER_RESULT_ERROR, fetch_each c (ks1 @ [k]) w1)"
    using assms(1,5,6,7,8) by (intro filterObjects_stops) (auto simp: checkResult_non_boolean)
  then have r: "filter_op c (Some f) ia n w
          = Returned (Some (Rejected FILTER_RESULT_ERROR, fetch_each c (ks1 @ [k]) w1))"
    using assms(2,4) by (simp add: filter_op_def FILTER_RESULT_ERROR_def)
  show ?thesis
    unfolding r using assms(3)
    by (simp add: thrown_def final_promise_def answered_def stored_def final_world_def
        history_fetch_each)
qed


theorem filter_non_boolean_rejects_witness:
  "plain_bucket demo_config
   \<and> thrown (filter_op demo_config (Some yes_on_b) None 2 three_object_world) = None
   \<and> final_promise (filter_op demo_config (Some yes_on_b) None 2 three_object_world)
       = Some (Rejected FILTER_RESULT_ERROR)
   \<and> answered (filter_op demo_config (Some yes_on_b) None 2 three_object_world)
       = [[ListObjects ''logs'' ''in/'' ''''], [ListObjects ''logs'' ''in/'' ''in/k3''],
          [GetObject ''logs'' ''in/k1''], [GetObject ''logs'' ''in/k2'']]"
proof -
  let ?w1 = "answer (ListObjects ''logs'' ''in/'' ''in/k3'')
               (answer (ListObjects ''logs'' ''in/'' '''') three_object_world)"
  have l: "list demo_config 2 three_object_world
             = Some (Resolved ([''in/k1''] @ ''in/k2'' # [''in/k3'']), ?w1)"
    by (simp add: eval_defs)
  have p: "plain_bucket demo_config" by (simp add: eval_defs)
  have i: "in_flight ?w1 = []" by simp
  have d: "delimiter demo_config = None" by (simp add: demo_config_def)
  have "fetched demo_config ?w1 ''in/k1'' = Resolved (''x'' @ newline @ ''y'')"
    by (simp add: eval_defs)
  moreover have "yes_on_b (''x'' @ newline @ ''y'') = Returns (JBool True)"
    by (simp add: eval_defs)
  ultimately have e: "\<forall>k' \<in> set [''in/k1'']. \<exists>body b. fetched demo_config ?w1 k' = Resolved body
             \<and> yes_on_b body = Returns (JBool b)" by auto
  have f: "fetched demo_config ?w1 ''in/k2'' = Resolved (''a'' @ newline @ ''b'' @ newline @ ''c'')"
    by (simp add: eval_defs)
  have s: "yes_on_b (''a'' @ newline @ ''b'' @ newline @ ''c'') = Returns (JStr ''yes'')"
    by (simp add: eval_defs)
  have n: "\<not> is_boolean (JStr ''yes'')" by simp
  have h: "history ?w1 = [[ListObjects ''logs'' ''in/'' ''''], [ListObjects ''logs'' ''in/'' ''in/k3'']]"
    by (simp add: three_object_world_def)
  have b: "bucket demo_config = ''logs''" by (simp add: demo_config_def)
  from filter_non_boolean_rejects [OF p l i d e f s n, of None] p h b
  show ?thesis by simp
qed

section \<open>Requests in flight\<close>

lemma sequential_await_issue: "sequential w \<Longrightarrow> sequential (await (issue r w))"
  by (simp add: sequential_def await_def issue_def)

lemma sequential_await [simp]: "sequential w \<Longrightarrow> await w = w"
  by (simp add: sequential_def await_def)

lemma sequential_objects [simp]: "sequential (w\<lparr>objects := ob\<rparr>) = sequential w"
  by (simp add: sequential_def)

lemma get_seq: "get c a1 a2 w = (p, w1) \<Longrightarrow> sequential w \<Longrightarrow> sequential (await w1)"
  by (auto simp: get_def Let_def sequential_await_issue split: option.splits)

lemma put_seq: "put c b k body w = (p, w1) \<Longrightarrow> sequential w \<Longrightarrow> sequential (await w1)"
  by (auto simp: put_def sequential_def await_def issue_def)

lemma map_output_seq: "map_output c k body w = (p, w1) \<Longrightarrow> sequential w \<Longrightarrow> sequential (await w1)"
  by (auto simp: map_output_def dest: put_seq split: if_splits)

lemma splitObject_seq: "splitObject c b k d e w = (p, w1) \<Longrightarrow> sequential w \<Longrightarrow> sequential w1"
  by (auto simp: splitObject_def Let_def dest: get_seq split: prod.splits promise.splits if_splits)

lemma listObjects_seq: "listObjects c b p m w = (r, w1) \<Longrightarrow> sequential w \<Longrightarrow> sequential (await w1)"
  by (auto simp: listObjects_def Let_def sequential_await_issue split: sum.splits)

lemma delete_seq: "delete c b ka w = (p, w1) \<Longrightarrow> sequential w \<Longrightarrow> sequential (await w1)"
  by (auto simp: delete_def deleteObjects_def sequential_def await_def issue_def split: key_arg.splits)

lemma list_keys_seq:
  "list_keys n c acc m w = Some (p, w') \<Longrightarrow> sequential w \<Longrightarrow> sequential w'"
proof (induction n arbitrary: acc m w)
  case 0
  then show ?case by simp
next
  case (Suc n)
  obtain r w1 where l: "listObjects c (bucket c) (key_prefix c) m w = (r, w1)"
    by (cases "listObjects c (bucket c) (key_prefix c) m w")
  from listObjects_seq[OF l Suc.prems(2)] have s: "sequential (await w1)" .
  show ?case
  proof (cases r)
    case (Rejected e)
    with Suc.prems(1) l s show ?thesis by auto
  next
    case (Resolved keys)
    with Suc.prems(1) l s Suc.IH show ?thesis by (auto split: if_splits)
  qed
qed

lemma list_seq: "list c n w = Some (p, w') \<Longrightarrow> sequential w \<Longrightarrow> sequential w'"
  unfolding list_def by (rule list_keys_seq)

lemma eachObject_seq: "sequential w \<Longrightarrow> sequential (snd (eachObject c f a ks w))"
proof (induction ks arbitrary: w)
  case Nil
  then show ?case by simp
next
  case (Cons k ks)
  obtain p w1 where g: "get c (bucket c) k w = (p, w1)" by (cases "get c (bucket c) k w")
  from get_seq[OF g Cons.prems] have s: "sequential (await w1)" .
  with g Cons.IH[OF s] show ?case
    by (simp split: promise.splits ufres.splits)
qed

lemma forEach_splitObjects_seq: "sequential w \<Longrightarrow> sequential (snd (forEach_splitObjects c f a ks w))"
proof (induction ks arbitrary: w)
  case Nil
  then show ?case by simp
next
  case (Cons k ks)
  obtain p w1 where g: "splitObject c (bucket c) k (delimiter c) (Some (encoding c)) w = (p, w1)"
    by (cases "splitObject c (bucket c) k (delimiter c) (Some (encoding c)) w")
  from splitObject_seq[OF g Cons.prems] have s: "sequential w1" .
  with g Cons.IH[OF s] show ?case
    by (simp split: promise.splits)
qed

lemma reduceObjects_seq: "sequential w \<Longrightarrow> sequential (snd (snd (reduceObjects c f a ks v w)))"
proof (induction ks arbitrary: v w)
  case Nil
  then show ?case by simp
next
  case (Cons k ks)
  obtain p w1 where g: "get c (bucket c) k w = (p, w1)" by (cases "get c (bucket c) k w")
  from get_seq[OF g Cons.prems] have s: "sequential (await w1)" .
  with g Cons.IH[OF s] show ?case
    by (simp split: promise.splits ufres.splits)
qed

lemma filter_splitObjects_seq: "sequential w \<Longrightarrow> sequential (snd (filter_splitObjects c f a ks w))"
proof (induction ks arbitrary: w)
  case Nil
  then show ?case by simp
next
  case (Cons k ks)
  obtain p w1 where g: "splitObject c (bucket c) k (delimiter c) (Some (encoding c)) w = (p, w1)"
    by (cases "splitObject c (bucket c) k (delimiter c) (Some (encoding c)) w")
  from splitObject_seq[OF g Cons.prems] have s: "sequential w1" .
  have "sequential (await w2)" if "put c b' k' body w1 = (q, w2)" for b' k' body q w2
    using put_seq[OF that s] .
  with g s Cons.IH show ?case
    by (simp add: Let_def split: promise.splits prod.splits)
qed

lemma map_seq:
  "sequential w \<Longrightarrow> sequential (snd (mapObject c f a ks w))"
  "sequential w \<Longrightarrow> sequential (snd (map_splitObjects c f a ks w))"
proof (induction c f a ks w and c f a ks w rule: mapObject_map_splitObjects.induct)
  case (1 c func isAsync w)
  then show ?case by simp
next
  case (2 c func isAsync key keys w)
  obtain p w1 where g: "get c (bucket c) key w = (p, w1)" by (cases "get c (bucket c) key w")
  from get_seq[OF g "2.prems"] have s: "sequential (await w1)" .
  have o: "sequential (await w2)" if "map_output c key body (await w1) = (q, w2)" for body q w2
    using map_output_seq[OF that s] .
  show ?case
    using g s o "2.IH" 
    by (auto split: promise.splits ufres.splits prod.splits)
next
  case (3 c func isAsync w)
  then show ?case by simp
next
  case (4 c func isAsync key keys w)
  obtain p w1 where g: "splitObject c (bucket c) key (delimiter c) (Some (encoding c)) w = (p, w1)"
    by (cases "splitObject c (bucket c) key (delimiter c) (Some (encoding c)) w")
  from splitObject_seq[OF g "4.prems"] have s: "sequential w1" .
  have o: "sequential (await w2)" if "map_output c key body w1 = (q, w2)" for body q w2
    using map_output_seq[OF that s] .
  show ?case
    using g s o "4.IH"
    by (auto split: promise.splits ufres.splits prod.splits)
qed


lemma sequential_single_but_last: "sequential w \<Longrightarrow> single_but_last w"
  by (auto simp: sequential_def single_but_last_def dest: in_set_butlastD)

lemma copy_each_world:
  "copy_each c ks w = (ps, w1) \<Longrightarrow> history w1 = history w"
proof (induction ks arbitrary: w ps w1)
  case Nil
  then show ?case by simp
next
  case (Cons k ks)
  obtain p w2 where cp: "copy c (bucket c) k (targetBucket c) (targetPrefix c @ getFileName k) w = (p, w2)"
    by (cases "copy c (bucket c) k (targetBucket c) (targetPrefix c @ getFileName k) w")
  then have h: "history w2 = history w"
    by (auto simp: copy_def issue_def Let_def split: option.splits)
  obtain qs w3 where ce: "copy_each c ks w2 = (qs, w3)" by (cases "copy_each c ks w2")
  from Cons.IH[OF ce] h have "history w3 = history w" by simp
  with Cons.prems cp ce show ?case by simp
qed

lemma finish_no_target_seq:
  "\<not> hasTarget c \<Longrightarrow> sequential w \<Longrightarrow> sequential (snd (finish c keep remove w))"
  by (auto simp: finish_def dest: delete_seq split: prod.splits promise.splits)

lemma finish_single_but_last:
  assumes "sequential w" shows "single_but_last (snd (finish c keep remove w))"
proof (cases "hasTarget c")
  case False
  with assms show ?thesis by (simp add: finish_no_target_seq sequential_single_but_last)
next
  case True
  obtain ps w1 where ce: "copy_each c keep w = (ps, w1)" by (cases "copy_each c keep w")
  then have h: "history w1 = history w" by (rule copy_each_world)
  have "single_but_last (await w1)"
    using assms h by (auto simp: single_but_last_def await_def sequential_def dest: in_set_butlastD)
  with True ce show ?thesis
    by (simp add: finish_def split: promise.splits)
qed

lemma filterObjects_seq:
  "\<not> hasTarget c \<Longrightarrow> sequential w \<Longrightarrow> sequential (snd (filterObjects c f a ks keep remove w))"
proof (induction ks arbitrary: keep remove w)
  case Nil
  then show ?case by (simp add: finish_no_target_seq)
next
  case (Cons k ks)
  obtain p w1 where g: "get c (bucket c) k w = (p, w1)" by (cases "get c (bucket c) k w")
  from get_seq[OF g Cons.prems(2)] have s: "sequential (await w1)" .
  with g Cons.IH[OF Cons.prems(1) s] show ?case
    by (simp split: promise.splits ufres.splits call.splits)
qed

lemma filterObjects_single_but_last:
  "sequential w \<Longrightarrow> single_but_last (snd (filterObjects c f a ks keep remove w))"
proof (induction ks arbitrary: keep remove w)
  case Nil
  then show ?case by (simp add: finish_single_but_last)
next
  case (Cons k ks)
  obtain p w1 where g: "get c (bucket c) k w = (p, w1)" by (cases "get c (bucket c) k w")
  from get_seq[OF g Cons.prems] have s: "sequential (await w1)" .
  with g Cons.IH[OF s] show ?case
    by (simp add: sequential_single_but_last split: promise.splits ufres.splits call.splits)
qed

lemma final_world_Some:
  "final_world r = Some w' \<longleftrightarrow> (\<exists>p. r = Returned (Some (p, w')))"
  by (auto simp: final_world_def split: call.splits option.splits)

lemma forEach_seq:
  assumes "sequential w" and "final_world (forEach c fo ia n w) = Some w'"
  shows "sequential w'"
proof -
  from assms(2) obtain f where f: "fo = Some f"
    by (cases fo) (auto simp: forEach_def final_world_def)
  from assms(2) f obtain p w1 where l: "list c n w = Some (p, w1)"
    by (cases "list c n w") (auto simp: forEach_def final_world_def)
  from list_seq[OF l assms(1)] have s: "sequential w1" .
  have a: "sequential w2" if "eachObject c f (or_default ia False) ks w1 = (r, w2)" for ks r w2
    using eachObject_seq[OF s, of c f "or_default ia False" ks] that by simp
  have b: "sequential w2" if "forEach_splitObjects c f (or_default ia False) ks w1 = (r, w2)" for ks r w2
    using forEach_splitObjects_seq[OF s, of c f "or_default ia False" ks] that by simp
  show ?thesis
    using assms(2) f l s a b
    by (cases p) (auto simp: forEach_def final_world_def split: prod.splits if_splits)
qed

lemma map_op_seq:
  assumes "sequential w" and "final_world (map_op c fo ia n w) = Some w'"
  shows "sequential w'"
proof -
  from assms(2) obtain f where f: "fo = Some f"
    by (cases fo) (auto simp: map_op_def final_world_def)
  from assms(2) f obtain p w1 where l: "list c n w = Some (p, w1)"
    by (cases "list c n w") (auto simp: map_op_def final_world_def)
  from list_seq[OF l assms(1)] have s: "sequential w1" .
  have a: "sequential w2" if "mapObject c f (or_default ia False) ks w1 = (r, w2)" for ks r w2
    using map_seq(1)[OF s, of c f "or_default ia False" ks] that by simp
  have b: "sequential w2" if "map_splitObjects c f (or_default ia False) ks w1 = (r, w2)" for ks r w2
    using map_seq(2)[OF s, of c f "or_default ia False" ks] that by simp
  show ?thesis
    using assms(2) f l s a b
    by (cases p) (auto simp: map_op_def map_entry_def final_world_def split: prod.splits if_splits)
qed

lemma reduce_seq:
  assumes "sequential w" and "final_world (reduce c fo v0 ia n w) = Some w'"
  shows "sequential w'"
proof -
  from assms(2) obtain f where f: "fo = Some f"
    by (cases fo) (auto simp: reduce_def final_world_def)
  from assms(2) f obtain p w1 where l: "list c n w = Some (p, w1)"
    by (cases "list c n w") (auto simp: reduce_def final_world_def)
  from list_seq[OF l assms(1)] have s: "sequential w1" .
  have sp: "splitAndReduceObjects c f a ks v0 w1 = Returned (e, v, w2) \<Longrightarrow> sequential w2"
    for a ks e v w2
    using s by (cases ks) auto
  have a: "sequential w2" if "reduceObjects c f (or_default ia False) ks v0 w1 = (r, v, w2)" for ks r v w2
    using reduceObjects_seq[OF s, of c f "or_default ia False" ks v0] that by simp
  show ?thesis
    using assms(2) f l s a sp
    by (cases p) (auto simp: reduce_def final_world_def split: prod.splits if_splits call.splits)
qed

lemma filter_op_seq:
  assumes "sequential w" and "final_world (filter_op c fo ia n w) = Some w'"
    and "delimiter c \<noteq> None \<or> \<not> hasTarget c"
  shows "sequential w'"
proof -
  from assms(2) obtain f where f: "fo = Some f"
    by (cases fo) (auto simp: filter_op_def final_world_def)
  from assms(2) f obtain p w1 where l: "list c n w = Some (p, w1)"
    by (cases "list c n w") (auto simp: filter_op_def final_world_def)
  from list_seq[OF l assms(1)] have s: "sequential w1" .
  have a: "sequential w2" if "filter_splitObjects c f (or_default ia False) ks w1 = (r, w2)" for ks r w2
    using filter_splitObjects_seq[OF s, of c f "or_default ia False" ks] that by simp
  have b: "sequential w2"
    if "filterObjects c f (or_default ia False) ks [] [] w1 = (r, w2)" and "\<not> hasTarget c" for ks r w2
    using filterObjects_seq[OF that(2) s, of f "or_default ia False" ks "[]" "[]"] that(1) by simp
  show ?thesis
    using assms(2,3) f l s a b
    by (cases p) (auto simp: filter_op_def final_world_def split: prod.splits if_splits)
qed

lemma filter_op_single_but_last:
  assumes "sequential w" and "final_world (filter_op c fo ia n w) = Some w'"
  shows "single_but_last w'"
proof -
  from assms(2) obtain f where f: "fo = Some f"
    by (cases fo) (auto simp: filter_op_def final_world_def)
  from assms(2) f obtain p w1 where l: "list c n w = Some (p, w1)"
    by (cases "list c n w") (auto simp: filter_op_def final_world_def)
  from list_seq[OF l assms(1)] have s: "sequential w1" .
  have a: "sequential w2" if "filter_splitObjects c f (or_default ia False) ks w1 = (r, w2)" for ks r w2
    using filter_splitObjects_seq[OF s, of c f "or_default ia False" ks] that by simp
  have b: "single_but_last w2"
    if "filterObjects c f (or_default ia False) ks [] [] w1 = (r, w2)" for ks r w2
    using filterObjects_single_but_last[OF s, of c f "or_default ia False" ks "[]" "[]"] that by simp
  show ?thesis
    using assms(2) f l s a b
    by (cases p) (auto simp: filter_op_def final_world_def sequential_single_but_last
        split: prod.splits if_splits)
qed

lemma get_each_world:
  "plain_bucket c \<Longrightarrow> get_each c keys w = (ps, w2) \<Longrightarrow>
   w2 = w\<lparr>in_flight := in_flight w @ map (GetObject (bucket c)) keys\<rparr>"
proof (induction keys arbitrary: w ps w2)
  case Nil
  then show ?case by simp
next
  case (Cons k keys)
  let ?w1 = "issue (GetObject (bucket c) k) w"
  obtain qs w3 where ge: "get_each c keys ?w1 = (qs, w3)" by (cases "get_each c keys ?w1")
  from Cons.IH[OF Cons.prems(1) ge]
  have "w3 = w\<lparr>in_flight := in_flight w @ map (GetObject (bucket c)) (k # keys)\<rparr>"
    by (simp add: issue_def)
  with Cons.prems ge show ?case
    by (simp add: get_plain)
qed

lemma join_together:
  assumes "plain_bucket c" and "list c n w = Some (Resolved keys, w1)" and "in_flight w1 = []"
    and "keys \<noteq> []"
  shows "asked (join c d n w) = history w1 @ [map (GetObject (bucket c)) keys]"
proof -
  obtain ps w2 where g: "get_each c keys w1 = (ps, w2)" by (cases "get_each c keys w1")
  from get_each_world[OF assms(1) g] assms(3)
  have w2: "w2 = w1\<lparr>in_flight := map (GetObject (bucket c)) keys\<rparr>" by simp
  have "history (await w2) = history w1 @ [map (GetObject (bucket c)) keys]"
    using assms(4) by (simp add: w2 await_def)
  with assms(2) g show ?thesis
    by (simp add: join_def asked_def Let_def split: promise.splits)
qed


lemma copy_each_in_flight:
  "copy_each c ks w = (ps, w1) \<Longrightarrow> in_flight w1 = in_flight w @ map (copy_request c) ks"
proof (induction ks arbitrary: w ps w1)
  case Nil
  then show ?case by simp
next
  case (Cons k ks)
  obtain p w2 where cp: "copy c (bucket c) k (targetBucket c) (targetPrefix c @ getFileName k) w = (p, w2)"
    by (cases "copy c (bucket c) k (targetBucket c) (targetPrefix c @ getFileName k) w")
  then have h: "in_flight w2 = in_flight w @ [copy_request c k]"
    by (auto simp: copy_def issue_def Let_def copy_request_def split: option.splits)
  obtain qs w3 where ce: "copy_each c ks w2 = (qs, w3)" by (cases "copy_each c ks w2")
  from Cons.IH[OF ce] h have "in_flight w3 = in_flight w @ map (copy_request c) (k # ks)" by simp
  with Cons.prems cp ce show ?case by simp
qed

lemma finish_target_history:
  assumes "hasTarget c" and "in_flight w = []" and "keep \<noteq> []"
  shows "history (snd (finish c keep remove w)) = history w @ [map (copy_request c) keep]"
proof -
  obtain ps w1 where ce: "copy_each c keep w = (ps, w1)" by (cases "copy_each c keep w")
  from copy_each_world[OF ce] copy_each_in_flight[OF ce] assms(2,3)
  have "history (await w1) = history w @ [map (copy_request c) keep]"
    by (simp add: await_def)
  with assms(1) ce show ?thesis
    by (simp add: finish_def split: promise.splits)
qed

text \<open>
  \<open>_filterObjects\<close> over keys that are all fetched and tested with a boolean result: the
  keys are fetched one after the other, and \<open>_finish\<close> is given the kept and the removed
  keys in the order of the working set.
\<close>

lemma filterObjects_all:
  assumes "plain_bucket c"
    and "\<forall>k \<in> set ks. fetched c w k = Resolved (body k) \<and> f (body k) = Returns (JBool (pk k))"
  shows "filterObjects c f a ks keep remove w
     = finish c (keep @ filter pk ks) (remove @ filter (\<lambda>k. \<not> pk k) ks) (fetch_each c ks w)"
  using assms(2)
proof (induction ks arbitrary: keep remove w)
  case Nil
  then show ?case by simp
next
  case (Cons k ks)
  let ?w1 = "answer (GetObject (bucket c) k) w"
  from Cons.prems have b: "fetched c w k = Resolved (body k)" "f (body k) = Returns (JBool (pk k))"
    by simp_all
  have ih: "filterObjects c f a ks keep' remove' ?w1
     = finish c (keep' @ filter pk ks) (remove' @ filter (\<lambda>k. \<not> pk k) ks) (fetch_each c ks ?w1)"
    for keep' remove'
    using Cons.prems by (intro Cons.IH) simp_all
  show ?case
    using assms(1) b ih
    by (simp add: get_plain checkResult_def answer_def [symmetric])
qed

lemma in_flight_fetch_each: "in_flight w = [] \<Longrightarrow> in_flight (fetch_each c ks w) = []"
  by (induction ks arbitrary: w) simp_all

lemma filter_copies_together:
  assumes "sequential w" and "plain_bucket c" and "delimiter c = None" and "hasTarget c"
    and "list c n w = Some (Resolved keys, w1)"
    and "\<forall>k \<in> set keys. fetched c w1 k = Resolved (body k) \<and> f (body k) = Returns (JBool (pk k))"
    and "filter pk keys \<noteq> []"
  shows "answered (filter_op c (Some f) ia n w)
     = history w1 @ map (\<lambda>k. [GetObject (bucket c) k]) keys @ [map (copy_request c) (filter pk keys)]"
proof -
  from list_seq[OF assms(5,1)] have i: "in_flight w1 = []" by (simp add: sequential_def)
  let ?a = "or_default ia False"
  let ?w2 = "fetch_each c keys w1"
  have fo: "filterObjects c f ?a keys [] [] w1
     = finish c (filter pk keys) (filter (\<lambda>k. \<not> pk k) keys) ?w2"
    using filterObjects_all[OF assms(2,6), of ?a "[]" "[]"] by simp
  have "history (snd (finish c (filter pk keys) (filter (\<lambda>k. \<not> pk k) keys) ?w2))
      = history ?w2 @ [map (copy_request c) (filter pk keys)]"
    using assms(4) in_flight_fetch_each[OF i] assms(7) by (rule finish_target_history)
  then have "history (snd (filterObjects c f ?a keys [] [] w1))
      = history w1 @ map (\<lambda>k. [GetObject (bucket c) k]) keys @ [map (copy_request c) (filter pk keys)]"
    by (simp add: fo history_fetch_each[OF i])
  with assms(3,5) show ?thesis
    by (cases "filterObjects c f ?a keys [] [] w1")
      (simp add: filter_op_def answered_def final_world_def)
qed

text \<open>
  Claim C9, as the specification states it, fails for \<open>join\<close> and for \<open>filter\<close> with a
  target. \<open>join\<close> calls \<open>get\<close> for every key of the working set in one loop and waits for
  all of them with \<open>Promise.all\<close>: over three objects the three fetches are outstanding
  together. \<open>filter\<close> with a target calls \<open>copy\<close> for every kept key in one loop of
  \<open>_finish\<close> and waits for all of them with \<open>Promise.all\<close>: with a function that keeps
  every object, the three copies are outstanding together.
\<close>

theorem join_and_filter_issue_together:
  "asked (join demo_config None 2 three_object_world)
     = [[ListObjects ''logs'' ''in/'' ''''], [ListObjects ''logs'' ''in/'' ''in/k3''],
        [GetObject ''logs'' ''in/k1'', GetObject ''logs'' ''in/k2'', GetObject ''logs'' ''in/k3'']]
   \<and> answered (filter_op target_config (Some keep_all) None 2 three_object_world)
     = [[ListObjects ''logs'' ''in/'' ''''], [ListObjects ''logs'' ''in/'' ''in/k3''],
        [GetObject ''logs'' ''in/k1''], [GetObject ''logs'' ''in/k2''],
        [GetObject ''logs'' ''in/k3''],
        [CopyObject ''logs'' ''in/k1'' ''kept'' ''out/k1'',
         CopyObject ''logs'' ''in/k2'' ''kept'' ''out/k2'',
         CopyObject ''logs'' ''in/k3'' ''kept'' ''out/k3'']]"
proof -
  have "asked (join demo_config None 2 three_object_world)
     = [[ListObjects ''logs'' ''in/'' ''''], [ListObjects ''logs'' ''in/'' ''in/k3''],
        [GetObject ''logs'' ''in/k1'', GetObject ''logs'' ''in/k2'', GetObject ''logs'' ''in/k3'']]"
    by (simp add: eval_defs asked_def)
  moreover have "answered (filter_op target_config (Some keep_all) None 2 three_object_world)
     = [[ListObjects ''logs'' ''in/'' ''''], [ListObjects ''logs'' ''in/'' ''in/k3''],
        [GetObject ''logs'' ''in/k1''], [GetObject ''logs'' ''in/k2''],
        [GetObject ''logs'' ''in/k3''],
        [CopyObject ''logs'' ''in/k1'' ''kept'' ''out/k1'',
         CopyObject ''logs'' ''in/k2'' ''kept'' ''out/k2'',
         CopyObject ''logs'' ''in/k3'' ''kept'' ''out/k3'']]"
    by (simp add: eval_defs keep_all_def getFileName_def)
  ultimately show ?thesis
    by (rule conjI)
qed

text \<open>
  Claim C9, amended: started in a world where every request so far was outstanding
  alone, \<open>forEach\<close>, \<open>map\<close> and \<open>reduce\<close> end in such a world: each request of the
  iteration over the keys is answered before the next is issued. So does \<open>filter\<close> in
  split mode and in whole-object mode with no target. With a target in whole-object
  mode, every request of \<open>filter\<close> but those of its last group is outstanding alone; and
  when every key of the working set is fetched and tested with a boolean result and some
  key is kept, \<open>filter\<close> asks for the objects one at a time, in the order of the working
  set, and then issues the copies of all kept objects together, as one group. \<open>join\<close>
  issues the fetches of all keys of the working set together, as one group.
\<close>

theorem key_iteration_sequential:
  assumes "sequential w"
  shows "(\<forall>w'. final_world (forEach c fe ia n w) = Some w' \<longrightarrow> sequential w')
       \<and> (\<forall>w'. final_world (map_op c fm ia n w) = Some w' \<longrightarrow> sequential w')
       \<and> (\<forall>w'. final_world (reduce c fr v0 ia n w) = Some w' \<longrightarrow> sequential w')
       \<and> (\<forall>w'. final_world (filter_op c ff ia n w) = Some w' \<longrightarrow>
             single_but_last w' \<and> (delimiter c \<noteq> None \<or> \<not> hasTarget c \<longrightarrow> sequential w'))
       \<and> (\<forall>f keys w1 body pk.
             ff = Some f \<and> plain_bucket c \<and> delimiter c = None \<and> hasTarget c
             \<and> list c n w = Some (Resolved keys, w1)
             \<and> (\<forall>k \<in> set keys. fetched c w1 k = Resolved (body k)
                   \<and> f (body k) = Returns (JBool (pk k)))
             \<and> filter pk keys \<noteq> [] \<longrightarrow>
             answered (filter_op c ff ia n w)
               = history w1 @ map (\<lambda>k. [GetObject (bucket c) k]) keys
                 @ [map (copy_request c) (filter pk keys)])
       \<and> (\<forall>keys w1. plain_bucket c \<and> list c n w = Some (Resolved keys, w1) \<and> keys \<noteq> [] \<longrightarrow>
             asked (join c d n w) = history w1 @ [map (GetObject (bucket c)) keys])"
proof -
  have j: "\<forall>keys w1. plain_bucket c \<and> list c n w = Some (Resolved keys, w1) \<and> keys \<noteq> [] \<longrightarrow>
             asked (join c d n w) = history w1 @ [map (GetObject (bucket c)) keys]"
  proof (intro allI impI, elim conjE)
    fix keys w1
    assume p: "plain_bucket c" and l: "list c n w = Some (Resolved keys, w1)" and k: "keys \<noteq> []"
    from list_seq[OF l assms] have "in_flight w1 = []" by (simp add: sequential_def)
    with p l k show "asked (join c d n w) = history w1 @ [map (GetObject (bucket c)) keys]"
      by (intro join_together)
  qed
  have a: "\<forall>w'. final_world (forEach c fe ia n w) = Some w' \<longrightarrow> sequential w'"
    using forEach_seq[OF assms, of c fe ia n] by blast
  have b: "\<forall>w'. final_world (map_op c fm ia n w) = Some w' \<longrightarrow> sequential w'"
    using map_op_seq[OF assms, of c fm ia n] by blast
  have r: "\<forall>w'. final_world (reduce c fr v0 ia n w) = Some w' \<longrightarrow> sequential w'"
    using reduce_seq[OF assms, of c fr v0 ia n] by blast
  have f: "\<forall>w'. final_world (filter_op c ff ia n w) = Some w' \<longrightarrow>
             single_but_last w' \<and> (delimiter c \<noteq> None \<or> \<not> hasTarget c \<longrightarrow> sequential w')"
    using filter_op_seq[OF assms, of c ff ia n] filter_op_single_but_last[OF assms, of c ff ia n]
    by blast
  have t: "\<forall>f keys w1 body pk.
             ff = Some f \<and> plain_bucket c \<and> delimiter c = None \<and> hasTarget c
             \<and> list c n w = Some (Resolved keys, w1)
             \<and> (\<forall>k \<in> set keys. fetched c w1 k = Resolved (body k)
                   \<and> f (body k) = Returns (JBool (pk k)))
             \<and> filter pk keys \<noteq> [] \<longrightarrow>
             answered (filter_op c ff ia n w)
               = history w1 @ map (\<lambda>k. [GetObject (bucket c) k]) keys
                 @ [map (copy_request c) (filter pk keys)]"
  proof (intro allI impI, elim conjE)
    fix f keys w1 body pk
    assume "ff = Some f" and "plain_bucket c" and "delimiter c = None" and "hasTarget c"
      and "list c n w = Some (Resolved keys, w1)"
      and "\<forall>k \<in> set keys. fetched c w1 k = Resolved (body k) \<and> f (body k) = Returns (JBool (pk k))"
      and "filter pk keys \<noteq> []"
    then show "answered (filter_op c ff ia n w)
               = history w1 @ map (\<lambda>k. [GetObject (bucket c) k]) keys
                 @ [map (copy_request c) (filter pk keys)]"
      using filter_copies_together[OF assms, of c n keys w1 body f pk ia] by simp
  qed
  from a b r f t j show ?thesis
    by (intro conjI)
qed

theorem key_iteration_sequential_witness:
  "in_flight three_object_world = [] \<and> history three_object_world = []
   \<and> plain_bucket demo_config
   \<and> final_world (forEach demo_config (Some keep_all) None 2 three_object_world) \<noteq> None
   \<and> map length (answered (forEach demo_config (Some keep_all) None 2 three_object_world))
       = [1, 1, 1, 1, 1]
   \<and> map length (answered (map_op demo_config (Some append_bang) None 2 three_object_world))
       = [1, 1, 1, 1, 1, 1, 1, 1]
   \<and> map length (answered (filter_op demo_config (Some no_b) None 2 three_object_world))
       = [1, 1, 1, 1, 1, 1]
   \<and> answered (filter_op target_config (Some no_b) None 2 three_object_world)
       = [[ListObjects ''logs'' ''in/'' ''''], [ListObjects ''logs'' ''in/'' ''in/k3''],
          [GetObject ''logs'' ''in/k1''], [GetObject ''logs'' ''in/k2''],
          [GetObject ''logs'' ''in/k3''],
          [CopyObject ''logs'' ''in/k1'' ''kept'' ''out/k1'',
           CopyObject ''logs'' ''in/k3'' ''kept'' ''out/k3'']]
   \<and> asked (join demo_config None 2 three_object_world)
       = [[ListObjects ''logs'' ''in/'' ''''], [ListObjects ''logs'' ''in/'' ''in/k3''],
          [GetObject ''logs'' ''in/k1'', GetObject ''logs'' ''in/k2'', GetObject ''logs'' ''in/k3'']]"
proof -
  let ?w1 = "answer (ListObjects ''logs'' ''in/'' ''in/k3'')
               (answer (ListObjects ''logs'' ''in/'' '''') three_object_world)"
  let ?keys = "[''in/k1'', ''in/k2'', ''in/k3'']"
  let ?body = "\<lambda>k. if k = ''in/k1'' then ''x'' @ newline @ ''y''
                    else if k = ''in/k2'' then ''a'' @ newline @ ''b'' @ newline @ ''c''
                    else ''de''"
  let ?pk = "\<lambda>k. k \<noteq> ''in/k2''"
  have i: "in_flight three_object_world = []" "history three_object_world = []"
    by (simp_all add: three_object_world_def)
  then have s: "sequential three_object_world"
    by (simp add: sequential_def)
  have p: "plain_bucket demo_config" "plain_bucket target_config"
    by (simp_all add: eval_defs)
  have l: "list demo_config 2 three_object_world = Some (Resolved ?keys, ?w1)"
    "list target_config 2 three_object_world = Some (Resolved ?keys, ?w1)"
    by (simp_all add: eval_defs)
  note k = key_iteration_sequential [OF s, of demo_config "Some keep_all" None 2
      "Some append_bang" "Some add_length" 0 "Some no_b" None]
  note k2 = key_iteration_sequential [OF s, of target_config "Some keep_all" None 2
      "Some append_bang" "Some add_length" 0 "Some no_b" None]
  have n: "final_world (forEach demo_config (Some keep_all) None 2 three_object_world) \<noteq> None"
    by (simp add: eval_defs keep_all_def)
  have a: "map length (answered r) = replicate (length (answered r)) 1"
    if "\<forall>w'. final_world r = Some w' \<longrightarrow> sequential w'"
    for r :: "('a promise \<times> world) option call"
    using that
    by (cases "final_world r") (auto simp: answered_def sequential_def map_replicate_const [symmetric])
  have f: "length (answered (forEach demo_config (Some keep_all) None 2 three_object_world)) = 5"
    by (simp add: eval_defs keep_all_def)
  have m: "length (answered (map_op demo_config (Some append_bang) None 2 three_object_world)) = 8"
    by (simp add: eval_defs append_bang_def)
  have g: "length (answered (filter_op demo_config (Some no_b) None 2 three_object_world)) = 6"
    by (simp add: eval_defs no_b_def)
  have d: "delimiter demo_config = None" "\<not> hasTarget demo_config"
    "delimiter target_config = None" "hasTarget target_config"
    by (simp_all add: demo_config_def target_config_def)
  have j: "asked (join demo_config None 2 three_object_world)
       = history ?w1 @ [map (GetObject (bucket demo_config)) ?keys]"
    using k p l by simp
  have h: "history ?w1 = [[ListObjects ''logs'' ''in/'' ''''], [ListObjects ''logs'' ''in/'' ''in/k3'']]"
    "bucket demo_config = ''logs''" "bucket target_config = ''logs''"
    by (simp_all add: three_object_world_def demo_config_def target_config_def)
  have e: "\<forall>k \<in> set ?keys. fetched target_config ?w1 k = Resolved (?body k)
             \<and> no_b (?body k) = Returns (JBool (?pk k))"
    by (simp add: eval_defs no_b_def)
  have q: "filter ?pk ?keys = [''in/k1'', ''in/k3'']"
    by simp
  from k2 have "\<forall>f keys w1 body pk.
             Some no_b = Some f \<and> plain_bucket target_config \<and> delimiter target_config = None
             \<and> hasTarget target_config
             \<and> list target_config 2 three_object_world = Some (Resolved keys, w1)
             \<and> (\<forall>k \<in> set keys. fetched target_config w1 k = Resolved (body k)
                   \<and> f (body k) = Returns (JBool (pk k)))
             \<and> filter pk keys \<noteq> [] \<longrightarrow>
             answered (filter_op target_config (Some no_b) None 2 three_object_world)
               = history w1 @ map (\<lambda>k. [GetObject (bucket target_config) k]) keys
                 @ [map (copy_request target_config) (filter pk keys)]"
    by (elim conjE)
  from this [rule_format, of no_b ?keys ?w1 ?body ?pk] p(2) d(3,4) l(2) e q
  have "answered (filter_op target_config (Some no_b) None 2 three_object_world)
      = history ?w1 @ map (\<lambda>k. [GetObject (bucket target_config) k]) ?keys
        @ [map (copy_request target_config) [''in/k1'', ''in/k3'']]"
    by simp
  then have c: "answered (filter_op target_config (Some no_b) None 2 three_object_world)
       = [[ListObjects ''logs'' ''in/'' ''''], [ListObjects ''logs'' ''in/'' ''in/k3''],
          [GetObject ''logs'' ''in/k1''], [GetObject ''logs'' ''in/k2''],
          [GetObject ''logs'' ''in/k3''],
          [CopyObject ''logs'' ''in/k1'' ''kept'' ''out/k1'',
           CopyObject ''logs'' ''in/k3'' ''kept'' ''out/k3'']]"
    by (simp add: h copy_request_def target_config_def demo_config_def getFileName_def
        js_substr_def Let_def)
  from k have "map length (answered (forEach demo_config (Some keep_all) None 2 three_object_world))
       = replicate 5 1"
    using a [of "forEach demo_config (Some keep_all) None 2 three_object_world"] f by simp
  moreover from k have "map length (answered (map_op demo_config (Some append_bang) None 2 three_object_world))
       = replicate 8 1"
    using a [of "map_op demo_config (Some append_bang) None 2 three_object_world"] m by simp
  moreover from k d have "map length (answered (filter_op demo_config (Some no_b) None 2 three_object_world))
       = replicate 6 1"
    using a [of "filter_op demo_config (Some no_b) None 2 three_object_world"] g by simp
  ultimately show ?thesis
    using i p n j h c by (simp add: eval_nat_numeral)
qed

section \<open>The modes in which reduce and the split filter work\<close>

text \<open>
  In whole-object mode, over objects that are all there and with a user function that
  returns, \<open>reduce\<close> folds the function over the bodies in the order of the keys, with
  one accumulator, and fetches each object once.
\<close>

lemma reduceObjects_folds:
  assumes "plain_bucket c"
    and "\<forall>k \<in> set ks. fetched c w k = Resolved (body k)"
    and "\<And>v b k. f v b k = Returns (g v b k)"
  shows "reduceObjects c f a ks v w
           = (Completed, foldl (\<lambda>v k. g v (body k) k) v ks, fetch_each c ks w)"
  using assms(2)
proof (induction ks arbitrary: v w)
  case Nil
  show ?case by simp
next
  case (Cons k ks)
  have "\<forall>k' \<in> set ks. fetched c (answer (GetObject (bucket c) k) w) k' = Resolved (body k')"
    using Cons.prems by simp
  from Cons.IH[OF this] Cons.prems assms(1,3) show ?case
    by (simp add: get_plain answer_def [symmetric])
qed

text \<open>
  In synchronous split mode with no target, over distinct keys whose objects are all
  there and with a predicate that returns booleans, \<open>filter\<close> fetches each object and
  writes it back once, with the records that pass joined by the delimiter.
\<close>

lemma filter_sync_total:
  "(\<And>x. f x = Returns (JBool (p x))) \<Longrightarrow> filter_sync f xs = Inr (filter p xs)"
  by (induction xs) simp_all

lemma filter_splitObjects_sync_writes_each:
  assumes "plain_bucket c" and "\<not> hasTarget c" and "delimiter c = Some d"
    and "\<And>x. f x = Returns (JBool (p x))"
    and "distinct ks" and "in_flight w = []"
    and "\<forall>k \<in> set ks. fetched c w k = Resolved (body k)"
  shows "fst (filter_splitObjects c f False ks w) = Completed
       \<and> history (snd (filter_splitObjects c f False ks w))
           = history w @ concat (map (\<lambda>k.
               [[GetObject (bucket c) k],
                [PutObject (bucket c) k
                   (js_join (filter p (if body k = [] then [] else js_split (body k) d)) (Some d))]]) ks)
       \<and> in_flight (snd (filter_splitObjects c f False ks w)) = []"
  using assms(5,6,7)
proof (induction ks arbitrary: w)
  case Nil
  then show ?case by simp
next
  case (Cons k ks)
  let ?nb = "js_join (filter p (if body k = [] then [] else js_split (body k) d)) (Some d)"
  let ?w1 = "answer (GetObject (bucket c) k) w"
  let ?w2 = "answer (PutObject (bucket c) k ?nb) (?w1\<lparr>objects := (objects ?w1)((bucket c, k) \<mapsto> ?nb)\<rparr>)"
  have f1: "fetched c w k = Resolved (body k)" using Cons.prems by simp
  have step: "filter_splitObjects c f False (k # ks) w = filter_splitObjects c f False ks ?w2"
    using assms(1,2,3) f1
    by (simp add: splitObject_plain filterSplitObject_def filter_sync_total [of f p, OF assms(4)]
        or_default_def put_def answer_def Let_def)
  have i2: "in_flight ?w2 = []" by simp
  have h2: "history ?w2 = history w @ [[GetObject (bucket c) k], [PutObject (bucket c) k ?nb]]"
    using Cons.prems(2) by (simp add: answer_def await_def issue_def)
  have "fetched c ?w2 k' = Resolved (body k')" if "k' \<in> set ks" for k'
  proof -
    from that Cons.prems(1) have ne: "k' \<noteq> k" by auto
    have "fetched c ?w2 k' = fetched c w k'"
      using assms(1) ne
      by (simp add: fetched_def get_def resolveKey_def js_indexOf_zero_iff plain_bucket_def Let_def
          answer_def await_def issue_def split: option.splits)
    with that Cons.prems(3) show ?thesis by simp
  qed
  then have "\<forall>k' \<in> set ks. fetched c ?w2 k' = Resolved (body k')" by blast
  from Cons.IH[OF _ i2 this] Cons.prems(1) h2 show ?case
    unfolding step by simp
qed

end
